theory Spec2Isabelle
  imports Main
begin

section \<open>The IBM CIS DNS provider (pkg/dns/ibm/dns.go)\<close>

text \<open>
  The provider maps one desired DNS record with several targets onto one remote entry
  per target. The remote service is reached through a zone-scoped client with four
  operations (list, create, update, delete). The client is an interface of the code, so
  the model takes it as a parameter: a record of functions over an arbitrary remote
  state \<open>'w\<close>. Every call the code issues is also written to a trace, so that what was
  sent, and in which order, can be stated. Log lines are not modelled.
\<close>

subsection \<open>Data\<close>

text \<open>
  \<open>iov1.DNSRecord\<close> and \<open>configv1.DNSZone\<close>, with the fields the provider reads.
  \<open>RecordTTL\<close> is an \<open>int64\<close>; the code only compares and copies it, so no arithmetic
  can wrap and it is modelled as \<open>int\<close>.
\<close>

record DNSRecordSpec =
  DNSName :: string
  Targets :: "string list"
  RecordType :: string
  RecordTTL :: int

record DNSRecord =
  Spec :: DNSRecordSpec

record DNSZone =
  ID :: string

text \<open>
  Errors are values. \<open>New\<close> is an error with a message (\<open>fmt.Errorf\<close> without \<open>%w\<close>,
  or an error handed back by the client), \<open>Wrap\<close> is \<open>fmt.Errorf\<close> with a message
  prefix and a wrapped cause (\<open>%w\<close>), \<open>Aggregate\<close> is the value built by
  \<open>kerrors.NewAggregate\<close> from a non-empty list.
\<close>

datatype error = New string | Wrap string error | Aggregate "error list"

definition NewAggregate :: "error list \<Rightarrow> error option" where
  "NewAggregate errs = (if errs = [] then None else Some (Aggregate errs))"

text \<open>
  What the client hands back. \<open>*core.DetailedResponse\<close> may be nil, and so may the
  result pointer, the \<open>Result\<close> slice and the \<open>ID\<close> of a listed entry. The entry fields
  are prefixed \<open>r\<close> to keep them apart from the zone's \<open>ID\<close>.
\<close>

record DetailedResponse =
  StatusCode :: int

record DnsrecordDetails =
  rID :: "string option"
  rName :: string
  rType :: string
  rContent :: string
  rTTL :: int

record ListDnsrecordsResp =
  Result :: "DnsrecordDetails list option"

text \<open>
  Call options. \<open>NewListAllDnsRecordsOptions\<close> starts with every filter unset; the
  setters fill them in. The create options start empty too, an update and a delete are
  built around the entry id.
\<close>

record ListAllDnsRecordsOptions =
  lType :: "string option"
  lName :: "string option"
  lContent :: "string option"

record CreateDnsRecordOptions =
  cName :: "string option"
  cType :: "string option"
  cContent :: "string option"
  cTTL :: "int option"

record UpdateDnsRecordOptions =
  uID :: string
  uName :: "string option"
  uType :: "string option"
  uContent :: "string option"
  uTTL :: "int option"

record DeleteDnsRecordOptions =
  dID :: string

definition NewListAllDnsRecordsOptions :: ListAllDnsRecordsOptions where
  "NewListAllDnsRecordsOptions = \<lparr>lType = None, lName = None, lContent = None\<rparr>"

definition NewCreateDnsRecordOptions :: CreateDnsRecordOptions where
  "NewCreateDnsRecordOptions = \<lparr>cName = None, cType = None, cContent = None, cTTL = None\<rparr>"

definition NewUpdateDnsRecordOptions :: "string \<Rightarrow> UpdateDnsRecordOptions" where
  "NewUpdateDnsRecordOptions i =
     \<lparr>uID = i, uName = None, uType = None, uContent = None, uTTL = None\<rparr>"

definition NewDeleteDnsRecordOptions :: "string \<Rightarrow> DeleteDnsRecordOptions" where
  "NewDeleteDnsRecordOptions i = \<lparr>dID = i\<rparr>"

text \<open>
  A reply to create, update or delete is the pair (response, err) that the code looks
  at; a reply to list carries the result as well.
\<close>

type_synonym reply = "DetailedResponse option \<times> error option"
type_synonym list_reply = "ListDnsrecordsResp option \<times> DetailedResponse option \<times> error option"

record 'w DnsClient =
  ListAllDnsRecords :: "ListAllDnsRecordsOptions \<Rightarrow> 'w \<Rightarrow> list_reply \<times> 'w"
  CreateDnsRecord :: "CreateDnsRecordOptions \<Rightarrow> 'w \<Rightarrow> reply \<times> 'w"
  UpdateDnsRecord :: "UpdateDnsRecordOptions \<Rightarrow> 'w \<Rightarrow> reply \<times> 'w"
  DeleteDnsRecord :: "DeleteDnsRecordOptions \<Rightarrow> 'w \<Rightarrow> reply \<times> 'w"

record 'w Provider =
  dnsServices :: "string \<rightharpoonup> 'w DnsClient"

datatype call =
    ListCall ListAllDnsRecordsOptions
  | CreateCall CreateDnsRecordOptions
  | UpdateCall UpdateDnsRecordOptions
  | DeleteCall DeleteDnsRecordOptions

text \<open>
  How a function ends: it returns an error value (nil is \<open>None\<close>) or it panics on a nil
  pointer. A loop either runs to its end (\<open>exit = None\<close>) or leaves the function.
\<close>

datatype exit = Return "error option" | Panic

record 'w loop_result =
  exit :: "exit option"
  world :: 'w
  calls :: "call list"

record 'w op_result =
  returned :: exit
  record_after :: "DNSRecord option"
  remote_after :: 'w
  issued :: "call list"

definition emit :: "call \<Rightarrow> 'w loop_result \<Rightarrow> 'w loop_result" where
  "emit c r = r\<lparr>calls := c # calls r\<rparr>"

definition leave :: "exit \<Rightarrow> 'w \<Rightarrow> 'w loop_result" where
  "leave x w = \<lparr>exit = Some x, world = w, calls = []\<rparr>"

definition fall_through :: "'w \<Rightarrow> 'w loop_result" where
  "fall_through w = \<lparr>exit = None, world = w, calls = []\<rparr>"

subsection \<open>Helpers of the Go library\<close>

definition HasSuffix :: "string \<Rightarrow> string \<Rightarrow> bool" where
  "HasSuffix s suffix \<longleftrightarrow>
     length suffix \<le> length s \<and> drop (length s - length suffix) s = suffix"

definition TrimSuffix :: "string \<Rightarrow> string \<Rightarrow> string" where
  "TrimSuffix s suffix =
     (if HasSuffix s suffix then take (length s - length suffix) s else s)"

definition StatusNotFound :: int where
  "StatusNotFound = 404"

text \<open>The test \<open>response != nil && response.StatusCode != http.StatusNotFound\<close>.\<close>

definition otherThanNotFound :: "DetailedResponse option \<Rightarrow> bool" where
  "otherThanNotFound response =
     (case response of None \<Rightarrow> False | Some r \<Rightarrow> StatusCode r \<noteq> StatusNotFound)"

subsection \<open>validateInputDNSData\<close>

definition validateInputDNSData :: "DNSRecord option \<Rightarrow> DNSZone \<Rightarrow> error option" where
  "validateInputDNSData record zone =
     NewAggregate
       ((case record of
           None \<Rightarrow> [New ''validateInputDNSData: dns record is nil'']
         | Some r \<Rightarrow>
             (if length (DNSName (Spec r)) = 0
              then [New ''validateInputDNSData: dns record name is empty''] else []) @
             (if length (RecordType (Spec r)) = 0
              then [New ''validateInputDNSData: dns record type is empty''] else []) @
             (if length (Targets (Spec r)) = 0
              then [New ''validateInputDNSData: dns record content is empty''] else [])) @
        (if length (ID zone) = 0
         then [New ''validateInputDNSData: dns zone id is empty''] else []))"

subsection \<open>The TTL rule of createOrUpdateDNSRecord\<close>

definition defaultCISRecordTTL :: int where
  "defaultCISRecordTTL = 120"

text \<open>
  The value of \<open>record.Spec.RecordTTL\<close> after the \<open>if\<close> at the head of
  \<open>createOrUpdateDNSRecord\<close>, as a function of its value before.
\<close>

definition normalizeTTL :: "int \<Rightarrow> int" where
  "normalizeTTL ttl =
     (if (ttl > 1 \<and> ttl < 120) \<or> ttl = 0 then defaultCISRecordTTL else ttl)"

subsection \<open>createOrUpdateDNSRecord, Ensure, Replace\<close>

fun createOrUpdate_loop ::
  "'w DnsClient \<Rightarrow> DNSRecord \<Rightarrow> ListAllDnsRecordsOptions \<Rightarrow> string list \<Rightarrow> 'w \<Rightarrow> 'w loop_result"
where
  "createOrUpdate_loop dnsService record listOpt [] w = fall_through w"
| "createOrUpdate_loop dnsService record listOpt (target # targets) w =
     (let listOpt = listOpt\<lparr>lContent := Some target\<rparr>;
          ((result, response, err), w1) = ListAllDnsRecords dnsService listOpt w
      in emit (ListCall listOpt)
        (case err of
           Some e \<Rightarrow>
             if otherThanNotFound response
             then leave (Return (Some
                    (Wrap ''createOrUpdateDNSRecord: failed to list the dns record: '' e))) w1
             else createOrUpdate_loop dnsService record listOpt targets w1
         | None \<Rightarrow>
             (case (case result of None \<Rightarrow> None | Some r \<Rightarrow> Result r) of
                None \<Rightarrow>
                  leave (Return (Some (New ''createOrUpdateDNSRecord: invalid result''))) w1
              | Some [] \<Rightarrow>
                  (let createOpt = NewCreateDnsRecordOptions
                         \<lparr>cName := Some (DNSName (Spec record)),
                          cType := Some (RecordType (Spec record)),
                          cContent := Some target,
                          cTTL := Some (RecordTTL (Spec record))\<rparr>;
                       ((response', err'), w2) = CreateDnsRecord dnsService createOpt w1
                   in emit (CreateCall createOpt)
                     (case err' of
                        Some e \<Rightarrow>
                          leave (Return (Some
                            (Wrap ''createOrUpdateDNSRecord: failed to create the dns record: '' e))) w2
                      | None \<Rightarrow> createOrUpdate_loop dnsService record listOpt targets w2))
              | Some (first # others) \<Rightarrow>
                  (case rID first of
                     None \<Rightarrow> leave Panic w1
                   | Some i \<Rightarrow>
                       (let updateOpt = (NewUpdateDnsRecordOptions i)
                              \<lparr>uName := Some (DNSName (Spec record)),
                               uType := Some (RecordType (Spec record)),
                               uContent := Some target,
                               uTTL := Some (RecordTTL (Spec record))\<rparr>;
                            ((response', err'), w2) = UpdateDnsRecord dnsService updateOpt w1
                        in emit (UpdateCall updateOpt)
                          (case err' of
                             Some e \<Rightarrow>
                               leave (Return (Some
                                 (Wrap ''createOrUpdateDNSRecord: failed to update the dns record: '' e))) w2
                           | None \<Rightarrow> createOrUpdate_loop dnsService record listOpt targets w2))))))"

text \<open>The function's last statement, \<open>return nil\<close>, is reached when the loop runs out.\<close>

definition finish :: "DNSRecord option \<Rightarrow> 'w loop_result \<Rightarrow> 'w op_result" where
  "finish record r =
     \<lparr>returned = (case exit r of None \<Rightarrow> Return None | Some x \<Rightarrow> x),
      record_after = record, remote_after = world r, issued = calls r\<rparr>"

definition fail_early :: "error \<Rightarrow> DNSRecord option \<Rightarrow> 'w \<Rightarrow> 'w op_result" where
  "fail_early e record w =
     \<lparr>returned = Return (Some e), record_after = record, remote_after = w, issued = []\<rparr>"

definition createOrUpdateDNSRecord ::
  "'w Provider \<Rightarrow> DNSRecord option \<Rightarrow> DNSZone \<Rightarrow> 'w \<Rightarrow> 'w op_result"
where
  "createOrUpdateDNSRecord p record zone w =
     (case validateInputDNSData record zone of
        Some err \<Rightarrow>
          fail_early (Wrap ''createOrUpdateDNSRecord: invalid dns input data: '' err) record w
      | None \<Rightarrow>
          (case dnsServices p (ID zone) of
             None \<Rightarrow>
               fail_early (New (''createOrUpdateDNSRecord: unknown zone: '' @ ID zone)) record w
           | Some dnsService \<Rightarrow>
               (case record of
                  None \<Rightarrow> finish None (leave Panic w)
                | Some r \<Rightarrow>
                    (let r = r\<lparr>Spec := (Spec r)\<lparr>RecordTTL := normalizeTTL (RecordTTL (Spec r))\<rparr>\<rparr>;
                         listOpt = NewListAllDnsRecordsOptions
                           \<lparr>lType := Some (RecordType (Spec r))\<rparr>;
                         DNSName' = TrimSuffix (DNSName (Spec r)) ''.'';
                         listOpt = listOpt\<lparr>lName := Some DNSName'\<rparr>
                     in finish (Some r)
                          (createOrUpdate_loop dnsService r listOpt (Targets (Spec r)) w)))))"

definition Ensure :: "'w Provider \<Rightarrow> DNSRecord option \<Rightarrow> DNSZone \<Rightarrow> 'w \<Rightarrow> 'w op_result" where
  "Ensure p record zone w = createOrUpdateDNSRecord p record zone w"

definition Replace :: "'w Provider \<Rightarrow> DNSRecord option \<Rightarrow> DNSZone \<Rightarrow> 'w \<Rightarrow> 'w op_result" where
  "Replace p record zone w = createOrUpdateDNSRecord p record zone w"

subsection \<open>Delete\<close>

text \<open>The inner loop of \<open>Delete\<close>, over the entries one list call returned.\<close>

fun delete_entries ::
  "'w DnsClient \<Rightarrow> DnsrecordDetails list \<Rightarrow> 'w \<Rightarrow> 'w loop_result"
where
  "delete_entries dnsService [] w = fall_through w"
| "delete_entries dnsService (resultData # rest) w =
     (case rID resultData of
        None \<Rightarrow> leave (Return (Some (New ''delete: record id is nil''))) w
      | Some i \<Rightarrow>
          (let delOpt = NewDeleteDnsRecordOptions i;
               ((delResponse, err), w1) = DeleteDnsRecord dnsService delOpt w
           in emit (DeleteCall delOpt)
             (case err of
                Some e \<Rightarrow>
                  if otherThanNotFound delResponse
                  then leave (Return (Some
                         (Wrap ''delete: failed to delete the dns record: '' e))) w1
                  else delete_entries dnsService rest w1
              | None \<Rightarrow> delete_entries dnsService rest w1)))"

text \<open>Running the rest of a loop after an inner loop, unless the inner loop left.\<close>

definition and_then :: "'w loop_result \<Rightarrow> ('w \<Rightarrow> 'w loop_result) \<Rightarrow> 'w loop_result" where
  "and_then r k =
     (case exit r of
        Some x \<Rightarrow> r
      | None \<Rightarrow> (let r' = k (world r) in r'\<lparr>calls := calls r @ calls r'\<rparr>))"

fun delete_loop ::
  "'w DnsClient \<Rightarrow> ListAllDnsRecordsOptions \<Rightarrow> string list \<Rightarrow> 'w \<Rightarrow> 'w loop_result"
where
  "delete_loop dnsService opt [] w = fall_through w"
| "delete_loop dnsService opt (target # targets) w =
     (let opt = opt\<lparr>lContent := Some target\<rparr>;
          ((result, response, err), w1) = ListAllDnsRecords dnsService opt w
      in emit (ListCall opt)
        (case err of
           Some e \<Rightarrow>
             if otherThanNotFound response
             then leave (Return (Some (Wrap ''delete: failed to list the dns record: '' e))) w1
             else delete_loop dnsService opt targets w1
         | None \<Rightarrow>
             (case (case result of None \<Rightarrow> None | Some r \<Rightarrow> Result r) of
                None \<Rightarrow> leave (Return (Some (New ''delete: invalid result''))) w1
              | Some entries \<Rightarrow>
                  and_then (delete_entries dnsService entries w1)
                    (delete_loop dnsService opt targets))))"

definition Delete :: "'w Provider \<Rightarrow> DNSRecord option \<Rightarrow> DNSZone \<Rightarrow> 'w \<Rightarrow> 'w op_result" where
  "Delete p record zone w =
     (case validateInputDNSData record zone of
        Some err \<Rightarrow> fail_early (Wrap ''delete: invalid dns input data: '' err) record w
      | None \<Rightarrow>
          (case dnsServices p (ID zone) of
             None \<Rightarrow> fail_early (New (''delete: unknown zone: '' @ ID zone)) record w
           | Some dnsService \<Rightarrow>
               (case record of
                  None \<Rightarrow> finish None (leave Panic w)
                | Some r \<Rightarrow>
                    (let opt = NewListAllDnsRecordsOptions
                           \<lparr>lType := Some (RecordType (Spec r))\<rparr>;
                         opt = opt\<lparr>lName := Some (DNSName (Spec r))\<rparr>
                     in finish (Some r)
                          (delete_loop dnsService opt (Targets (Spec r)) w)))))"

subsection \<open>Reading a trace\<close>

text \<open>
  What the issued calls carried: the name filters of the list calls, and the names and
  TTLs written by the create and update calls.
\<close>

fun filter_name_of :: "call \<Rightarrow> string option list" where
  "filter_name_of (ListCall opt) = [lName opt]"
| "filter_name_of c = []"

fun written_name_of :: "call \<Rightarrow> string option list" where
  "written_name_of (CreateCall opt) = [cName opt]"
| "written_name_of (UpdateCall opt) = [uName opt]"
| "written_name_of c = []"

fun written_ttl_of :: "call \<Rightarrow> int option list" where
  "written_ttl_of (CreateCall opt) = [cTTL opt]"
| "written_ttl_of (UpdateCall opt) = [uTTL opt]"
| "written_ttl_of c = []"

definition filter_names :: "call list \<Rightarrow> string option list" where
  "filter_names tr = concat (map filter_name_of tr)"

definition written_names :: "call list \<Rightarrow> string option list" where
  "written_names tr = concat (map written_name_of tr)"

definition written_ttls :: "call list \<Rightarrow> int option list" where
  "written_ttls tr = concat (map written_ttl_of tr)"

text \<open>
  What every call of the upsert loop looks like, for a record and the list options the
  loop was entered with.
\<close>

fun upsert_call_ok :: "DNSRecord \<Rightarrow> ListAllDnsRecordsOptions \<Rightarrow> call \<Rightarrow> bool" where
  "upsert_call_ok r opt (ListCall l) \<longleftrightarrow> lType l = lType opt \<and> lName l = lName opt"
| "upsert_call_ok r opt (CreateCall c) \<longleftrightarrow>
     cName c = Some (DNSName (Spec r)) \<and> cType c = Some (RecordType (Spec r)) \<and>
     cTTL c = Some (RecordTTL (Spec r))"
| "upsert_call_ok r opt (UpdateCall u) \<longleftrightarrow>
     uName u = Some (DNSName (Spec r)) \<and> uType u = Some (RecordType (Spec r)) \<and>
     uTTL u = Some (RecordTTL (Spec r))"
| "upsert_call_ok r opt (DeleteCall d) \<longleftrightarrow> False"

fun delete_call_ok :: "ListAllDnsRecordsOptions \<Rightarrow> call \<Rightarrow> bool" where
  "delete_call_ok opt (ListCall l) \<longleftrightarrow> lType l = lType opt \<and> lName l = lName opt"
| "delete_call_ok opt (DeleteCall d) \<longleftrightarrow> True"
| "delete_call_ok opt c \<longleftrightarrow> False"

subsection \<open>Replies\<close>

text \<open>
  A reply that reports "not found": the call failed and the response carries status 404.
\<close>

definition notFound :: "reply \<Rightarrow> bool" where
  "notFound rp \<longleftrightarrow>
     (case rp of
        (Some response, Some e) \<Rightarrow> StatusCode response = StatusNotFound
      | _ \<Rightarrow> False)"

definition listNotFound :: "list_reply \<Rightarrow> bool" where
  "listNotFound lr \<longleftrightarrow> notFound (snd lr)"

text \<open>A list reply with no matching entry: "not found", or a result with no entries.\<close>

definition noMatches :: "list_reply \<Rightarrow> bool" where
  "noMatches lr \<longleftrightarrow>
     listNotFound lr \<or>
     (case lr of (Some res, response, None) \<Rightarrow> Result res = Some [] | _ \<Rightarrow> False)"

text \<open>A successful list reply whose first entry has no id.\<close>

definition firstIDNil :: "list_reply \<Rightarrow> bool" where
  "firstIDNil lr \<longleftrightarrow>
     (case lr of
        (Some res, response, None) \<Rightarrow>
          (case Result res of Some (first # others) \<Rightarrow> rID first = None | _ \<Rightarrow> False)
      | _ \<Rightarrow> False)"

subsection \<open>The rules of validation, in the words of the specification\<close>

datatype rule = RecordNil | NameEmpty | TypeEmpty | TargetsEmpty | ZoneIDEmpty

definition all_rules :: "rule list" where
  "all_rules = [RecordNil, NameEmpty, TypeEmpty, TargetsEmpty, ZoneIDEmpty]"

fun violated :: "DNSRecord option \<Rightarrow> DNSZone \<Rightarrow> rule \<Rightarrow> bool" where
  "violated record zone RecordNil \<longleftrightarrow> record = None"
| "violated record zone NameEmpty \<longleftrightarrow>
     (case record of None \<Rightarrow> False | Some r \<Rightarrow> DNSName (Spec r) = [])"
| "violated record zone TypeEmpty \<longleftrightarrow>
     (case record of None \<Rightarrow> False | Some r \<Rightarrow> RecordType (Spec r) = [])"
| "violated record zone TargetsEmpty \<longleftrightarrow>
     (case record of None \<Rightarrow> False | Some r \<Rightarrow> Targets (Spec r) = [])"
| "violated record zone ZoneIDEmpty \<longleftrightarrow> ID zone = []"

fun failure_of :: "rule \<Rightarrow> error" where
  "failure_of RecordNil = New ''validateInputDNSData: dns record is nil''"
| "failure_of NameEmpty = New ''validateInputDNSData: dns record name is empty''"
| "failure_of TypeEmpty = New ''validateInputDNSData: dns record type is empty''"
| "failure_of TargetsEmpty = New ''validateInputDNSData: dns record content is empty''"
| "failure_of ZoneIDEmpty = New ''validateInputDNSData: dns zone id is empty''"

subsection \<open>Clients to run the code on\<close>

text \<open>A client that answers every call with the same reply and has no state.\<close>

definition cannedClient :: "list_reply \<Rightarrow> reply \<Rightarrow> unit DnsClient" where
  "cannedClient lr rp =
     \<lparr>ListAllDnsRecords = (\<lambda>opt w. (lr, w)),
      CreateDnsRecord = (\<lambda>opt w. (rp, w)),
      UpdateDnsRecord = (\<lambda>opt w. (rp, w)),
      DeleteDnsRecord = (\<lambda>opt w. (rp, w))\<rparr>"

definition providerOf :: "string \<Rightarrow> 'w DnsClient \<Rightarrow> 'w Provider" where
  "providerOf zoneID client = \<lparr>dnsServices = [zoneID \<mapsto> client]\<rparr>"

definition failed :: "int \<Rightarrow> reply" where
  "failed status = (Some \<lparr>StatusCode = status\<rparr>, Some (New ''remote failure''))"

definition succeeded :: reply where
  "succeeded = (Some \<lparr>StatusCode = 200\<rparr>, None)"

definition listFailed :: "int \<Rightarrow> list_reply" where
  "listFailed status = (None, failed status)"

definition listed :: "DnsrecordDetails list \<Rightarrow> list_reply" where
  "listed es = (Some \<lparr>Result = Some es\<rparr>, succeeded)"

definition exampleRecord :: "string \<Rightarrow> string list \<Rightarrow> int \<Rightarrow> DNSRecord" where
  "exampleRecord name targets ttl =
     \<lparr>Spec = \<lparr>DNSName = name, Targets = targets, RecordType = ''A'', RecordTTL = ttl\<rparr>\<rparr>"

subsection \<open>Names for what the operations are entered with\<close>

text \<open>
  The record with its TTL replaced, and the list options the two loops start from:
  the upsert path filters by the trimmed name, the delete path by the name as given.
\<close>

definition withTTL :: "DNSRecord \<Rightarrow> int \<Rightarrow> DNSRecord" where
  "withTTL r ttl = r\<lparr>Spec := (Spec r)\<lparr>RecordTTL := ttl\<rparr>\<rparr>"

definition upsertListOptions :: "DNSRecord \<Rightarrow> ListAllDnsRecordsOptions" where
  "upsertListOptions r =
     \<lparr>lType = Some (RecordType (Spec r)),
      lName = Some (TrimSuffix (DNSName (Spec r)) ''.''),
      lContent = None\<rparr>"

definition deleteListOptions :: "DNSRecord \<Rightarrow> ListAllDnsRecordsOptions" where
  "deleteListOptions r =
     \<lparr>lType = Some (RecordType (Spec r)), lName = Some (DNSName (Spec r)), lContent = None\<rparr>"

text \<open>The table of requested and effective TTLs of the specification.\<close>

definition ttl_table :: "(int \<times> int) list" where
  "ttl_table =
     [(0, 120), (1, 1), (50, 120), (119, 120), (120, 120), (121, 121),
      (2147483647, 2147483647)]"

text \<open>The targets that the calls of a trace are about.\<close>

fun content_of :: "call \<Rightarrow> string option list" where
  "content_of (ListCall opt) = [lContent opt]"
| "content_of (CreateCall opt) = [cContent opt]"
| "content_of (UpdateCall opt) = [uContent opt]"
| "content_of (DeleteCall opt) = []"

definition contents :: "call list \<Rightarrow> string option list" where
  "contents tr = concat (map content_of tr)"

text \<open>
  Replies that the delete path puts up with: a list reply that is "not found" or a
  result whose entries all have an id, and a delete reply that is "not found" or a
  success.
\<close>

definition listTolerable :: "list_reply \<Rightarrow> bool" where
  "listTolerable lr \<longleftrightarrow>
     listNotFound lr \<or>
     (case lr of
        (Some res, response, None) \<Rightarrow>
          (case Result res of Some es \<Rightarrow> list_all (\<lambda>e. rID e \<noteq> None) es | None \<Rightarrow> False)
      | _ \<Rightarrow> False)"

definition deleteTolerable :: "reply \<Rightarrow> bool" where
  "deleteTolerable rp \<longleftrightarrow> notFound rp \<or> snd rp = None"

text \<open>
  A client with no state that lists nothing and creates every entry but the one for a
  given target, which it refuses with status 500.
\<close>

definition createFailsFor :: "string \<Rightarrow> unit DnsClient" where
  "createFailsFor target =
     \<lparr>ListAllDnsRecords = (\<lambda>opt w. (listed [], w)),
      CreateDnsRecord = (\<lambda>opt w. (if cContent opt = Some target then failed 500 else succeeded, w)),
      UpdateDnsRecord = (\<lambda>opt w. (succeeded, w)),
      DeleteDnsRecord = (\<lambda>opt w. (succeeded, w))\<rparr>"

text \<open>The entry ids that the delete calls of a trace name.\<close>

fun deleted_id_of :: "call \<Rightarrow> string list" where
  "deleted_id_of (DeleteCall opt) = [dID opt]"
| "deleted_id_of c = []"

definition deleted_ids :: "call list \<Rightarrow> string list" where
  "deleted_ids tr = concat (map deleted_id_of tr)"

definition exampleEntry :: "string option \<Rightarrow> string \<Rightarrow> DnsrecordDetails" where
  "exampleEntry i target =
     \<lparr>rID = i, rName = ''a.example.com'', rType = ''A'', rContent = target, rTTL = 300\<rparr>"

subsection \<open>The remote provider as a store of entries\<close>

text \<open>
  Modelled from the spec: the remote provider behind the client, which is not part of
  the source (sections 3 and 6: a \<open>RemoteRecordEntry\<close> has a provider-assigned id, a name,
  a type, one content value and a TTL; a list returns the complete set of entries that
  match the name, type and content filters; a create adds an entry under a new id; an
  update changes the entry with the given id in place; a delete removes it; an update or
  a delete of an id that is not there answers "not found"). The specification does not
  say how the provider compares names, so the store takes the provider's canonical form
  of a name as a parameter \<open>canon\<close>: names are stored, and filters compared, in that
  form. With \<open>canon\<close> the identity the filter is an exact match.
\<close>

record Store =
  entries :: "DnsrecordDetails list"
  nextID :: nat

definition emptyStore :: Store where
  "emptyStore = \<lparr>entries = [], nextID = 0\<rparr>"

definition freshID :: "nat \<Rightarrow> string" where
  "freshID n = replicate (Suc n) (CHR ''i'')"

definition matchesFilter ::
  "(string \<Rightarrow> string) \<Rightarrow> ListAllDnsRecordsOptions \<Rightarrow> DnsrecordDetails \<Rightarrow> bool"
where
  "matchesFilter canon opt e \<longleftrightarrow>
     (case lName opt of None \<Rightarrow> True | Some n \<Rightarrow> rName e = canon n) \<and>
     (case lType opt of None \<Rightarrow> True | Some t \<Rightarrow> rType e = t) \<and>
     (case lContent opt of None \<Rightarrow> True | Some c \<Rightarrow> rContent e = c)"

definition storeList ::
  "(string \<Rightarrow> string) \<Rightarrow> ListAllDnsRecordsOptions \<Rightarrow> Store \<Rightarrow> list_reply \<times> Store"
where
  "storeList canon opt s = (listed (filter (matchesFilter canon opt) (entries s)), s)"

definition storeCreate ::
  "(string \<Rightarrow> string) \<Rightarrow> CreateDnsRecordOptions \<Rightarrow> Store \<Rightarrow> reply \<times> Store"
where
  "storeCreate canon opt s =
     (case (cName opt, cType opt, cContent opt, cTTL opt) of
        (Some n, Some ty, Some c, Some ttl) \<Rightarrow>
          (succeeded,
           s\<lparr>entries := entries s @
                [\<lparr>rID = Some (freshID (nextID s)), rName = canon n, rType = ty,
                  rContent = c, rTTL = ttl\<rparr>],
             nextID := Suc (nextID s)\<rparr>)
      | _ \<Rightarrow> (failed 400, s))"

definition overwrite ::
  "(string \<Rightarrow> string) \<Rightarrow> UpdateDnsRecordOptions \<Rightarrow> DnsrecordDetails \<Rightarrow> DnsrecordDetails"
where
  "overwrite canon opt e =
     e\<lparr>rName := (case uName opt of None \<Rightarrow> rName e | Some n \<Rightarrow> canon n),
       rType := (case uType opt of None \<Rightarrow> rType e | Some ty \<Rightarrow> ty),
       rContent := (case uContent opt of None \<Rightarrow> rContent e | Some c \<Rightarrow> c),
       rTTL := (case uTTL opt of None \<Rightarrow> rTTL e | Some ttl \<Rightarrow> ttl)\<rparr>"

definition storeUpdate ::
  "(string \<Rightarrow> string) \<Rightarrow> UpdateDnsRecordOptions \<Rightarrow> Store \<Rightarrow> reply \<times> Store"
where
  "storeUpdate canon opt s =
     (if list_ex (\<lambda>e. rID e = Some (uID opt)) (entries s)
      then (succeeded,
            s\<lparr>entries :=
                map (\<lambda>e. if rID e = Some (uID opt) then overwrite canon opt e else e) (entries s)\<rparr>)
      else (failed 404, s))"

definition storeDelete :: "DeleteDnsRecordOptions \<Rightarrow> Store \<Rightarrow> reply \<times> Store" where
  "storeDelete opt s =
     (if list_ex (\<lambda>e. rID e = Some (dID opt)) (entries s)
      then (succeeded, s\<lparr>entries := filter (\<lambda>e. rID e \<noteq> Some (dID opt)) (entries s)\<rparr>)
      else (failed 404, s))"

definition storeClient :: "(string \<Rightarrow> string) \<Rightarrow> Store DnsClient" where
  "storeClient canon =
     \<lparr>ListAllDnsRecords = storeList canon,
      CreateDnsRecord = storeCreate canon,
      UpdateDnsRecord = storeUpdate canon,
      DeleteDnsRecord = storeDelete\<rparr>"

text \<open>
  A store is well formed when its ids are distinct and were handed out by it. The
  entries for a target of a record are those with the record's name (in canonical
  form), its type and the target as content.
\<close>

definition wfStore :: "Store \<Rightarrow> bool" where
  "wfStore s \<longleftrightarrow>
     distinct (map rID (entries s)) \<and>
     list_all (\<lambda>e. list_ex (\<lambda>k. rID e = Some (freshID k)) [0..<nextID s]) (entries s)"

definition entriesFor :: "(string \<Rightarrow> string) \<Rightarrow> DNSRecord \<Rightarrow> string \<Rightarrow> Store \<Rightarrow> DnsrecordDetails list" where
  "entriesFor canon r target s =
     filter (\<lambda>e. rName e = canon (DNSName (Spec r)) \<and> rType e = RecordType (Spec r) \<and>
                 rContent e = target) (entries s)"

text \<open>The create and the update calls of a trace.\<close>

fun created_of :: "call \<Rightarrow> CreateDnsRecordOptions list" where
  "created_of (CreateCall opt) = [opt]"
| "created_of c = []"

fun updated_of :: "call \<Rightarrow> UpdateDnsRecordOptions list" where
  "updated_of (UpdateCall opt) = [opt]"
| "updated_of c = []"

definition created :: "call list \<Rightarrow> CreateDnsRecordOptions list" where
  "created tr = concat (map created_of tr)"

definition updated :: "call list \<Rightarrow> UpdateDnsRecordOptions list" where
  "updated tr = concat (map updated_of tr)"

section \<open>Basic facts\<close>

lemma emit_simps [simp]:
  "exit (emit c r) = exit r" "world (emit c r) = world r" "calls (emit c r) = c # calls r"
  by (simp_all add: emit_def)

lemma leave_simps [simp]:
  "exit (leave x w) = Some x" "world (leave x w) = w" "calls (leave x w) = []"
  by (simp_all add: leave_def)

lemma fall_through_simps [simp]:
  "exit (fall_through w) = None" "world (fall_through w) = w" "calls (fall_through w) = []"
  by (simp_all add: fall_through_def)

lemma upsert_call_ok_content:
  "upsert_call_ok r (opt\<lparr>lContent := x\<rparr>) c = upsert_call_ok r opt c"
  by (cases c) simp_all

lemma createOrUpdate_loop_calls_ok:
  "c \<in> set (calls (createOrUpdate_loop cl r opt ts w)) \<Longrightarrow> upsert_call_ok r opt c"
proof (induction ts arbitrary: opt w)
  case Nil
  then show ?case by simp
next
  case (Cons t ts)
  have IH: "\<And>opt w. c \<in> set (calls (createOrUpdate_loop cl r opt ts w)) \<Longrightarrow> upsert_call_ok r opt c"
    by (rule Cons.IH)
  from Cons.prems show ?case
    by (auto simp: Let_def NewCreateDnsRecordOptions_def NewUpdateDnsRecordOptions_def
        upsert_call_ok_content dest!: IH
        split: prod.splits option.splits list.splits if_splits)
qed

lemma finish_simps [simp]:
  "returned (finish rc r) = (case exit r of None \<Rightarrow> Return None | Some x \<Rightarrow> x)"
  "record_after (finish rc r) = rc"
  "remote_after (finish rc r) = world r"
  "issued (finish rc r) = calls r"
  by (simp_all add: finish_def)

lemma fail_early_simps [simp]:
  "returned (fail_early e rc w) = Return (Some e)"
  "record_after (fail_early e rc w) = rc"
  "remote_after (fail_early e rc w) = w"
  "issued (fail_early e rc w) = []"
  by (simp_all add: fail_early_def)

lemma validate_nil_record: "validateInputDNSData None zone \<noteq> None"
  by (simp add: validateInputDNSData_def NewAggregate_def)

lemma validate_passes_iff:
  "validateInputDNSData (Some r) zone = None \<longleftrightarrow>
     DNSName (Spec r) \<noteq> [] \<and> RecordType (Spec r) \<noteq> [] \<and> Targets (Spec r) \<noteq> [] \<and> ID zone \<noteq> []"
  by (simp add: validateInputDNSData_def NewAggregate_def)

lemma createOrUpdate_invalid:
  "validateInputDNSData rc zone = Some err \<Longrightarrow>
   createOrUpdateDNSRecord p rc zone w =
     fail_early (Wrap ''createOrUpdateDNSRecord: invalid dns input data: '' err) rc w"
  by (simp add: createOrUpdateDNSRecord_def)

lemma createOrUpdate_unknown_zone:
  "validateInputDNSData rc zone = None \<Longrightarrow> dnsServices p (ID zone) = None \<Longrightarrow>
   createOrUpdateDNSRecord p rc zone w =
     fail_early (New (''createOrUpdateDNSRecord: unknown zone: '' @ ID zone)) rc w"
  by (simp add: createOrUpdateDNSRecord_def)

lemma createOrUpdate_run:
  "validateInputDNSData (Some r) zone = None \<Longrightarrow> dnsServices p (ID zone) = Some cl \<Longrightarrow>
   createOrUpdateDNSRecord p (Some r) zone w =
     finish (Some (withTTL r (normalizeTTL (RecordTTL (Spec r)))))
       (createOrUpdate_loop cl (withTTL r (normalizeTTL (RecordTTL (Spec r))))
          (upsertListOptions r) (Targets (Spec r)) w)"
  by (simp add: createOrUpdateDNSRecord_def Let_def withTTL_def upsertListOptions_def
      NewListAllDnsRecordsOptions_def)

lemma Delete_invalid:
  "validateInputDNSData rc zone = Some err \<Longrightarrow>
   Delete p rc zone w = fail_early (Wrap ''delete: invalid dns input data: '' err) rc w"
  by (simp add: Delete_def)

lemma Delete_unknown_zone:
  "validateInputDNSData rc zone = None \<Longrightarrow> dnsServices p (ID zone) = None \<Longrightarrow>
   Delete p rc zone w = fail_early (New (''delete: unknown zone: '' @ ID zone)) rc w"
  by (simp add: Delete_def)

lemma Delete_run:
  "validateInputDNSData (Some r) zone = None \<Longrightarrow> dnsServices p (ID zone) = Some cl \<Longrightarrow>
   Delete p (Some r) zone w =
     finish (Some r) (delete_loop cl (deleteListOptions r) (Targets (Spec r)) w)"
  by (simp add: Delete_def Let_def deleteListOptions_def NewListAllDnsRecordsOptions_def)

text \<open>Every run of an operation is one of the three.\<close>

lemma createOrUpdate_cases:
  obtains (invalid) err where "validateInputDNSData rc zone = Some err"
      "createOrUpdateDNSRecord p rc zone w =
         fail_early (Wrap ''createOrUpdateDNSRecord: invalid dns input data: '' err) rc w"
  | (unknown) "validateInputDNSData rc zone = None" "dnsServices p (ID zone) = None"
      "createOrUpdateDNSRecord p rc zone w =
         fail_early (New (''createOrUpdateDNSRecord: unknown zone: '' @ ID zone)) rc w"
  | (run) r cl where "rc = Some r" "validateInputDNSData rc zone = None"
      "dnsServices p (ID zone) = Some cl"
      "createOrUpdateDNSRecord p rc zone w =
         finish (Some (withTTL r (normalizeTTL (RecordTTL (Spec r)))))
           (createOrUpdate_loop cl (withTTL r (normalizeTTL (RecordTTL (Spec r))))
              (upsertListOptions r) (Targets (Spec r)) w)"
proof (cases "validateInputDNSData rc zone")
  case (Some err)
  show ?thesis by (rule invalid [OF Some createOrUpdate_invalid [OF Some]])
next
  case None
  then obtain r where r: "rc = Some r"
    using validate_nil_record by (cases rc) auto
  show ?thesis
  proof (cases "dnsServices p (ID zone)")
    case None
    with \<open>validateInputDNSData rc zone = None\<close> show ?thesis
      by (intro unknown createOrUpdate_unknown_zone)
  next
    case (Some cl)
    with \<open>validateInputDNSData rc zone = None\<close> r show ?thesis
      by (intro run [of r cl]) (simp_all add: createOrUpdate_run)
  qed
qed

lemma Delete_cases:
  obtains (invalid) err where "validateInputDNSData rc zone = Some err"
      "Delete p rc zone w = fail_early (Wrap ''delete: invalid dns input data: '' err) rc w"
  | (unknown) "validateInputDNSData rc zone = None" "dnsServices p (ID zone) = None"
      "Delete p rc zone w = fail_early (New (''delete: unknown zone: '' @ ID zone)) rc w"
  | (run) r cl where "rc = Some r" "validateInputDNSData rc zone = None"
      "dnsServices p (ID zone) = Some cl"
      "Delete p rc zone w =
         finish (Some r) (delete_loop cl (deleteListOptions r) (Targets (Spec r)) w)"
proof (cases "validateInputDNSData rc zone")
  case (Some err)
  show ?thesis by (rule invalid [OF Some Delete_invalid [OF Some]])
next
  case None
  then obtain r where r: "rc = Some r"
    using validate_nil_record by (cases rc) auto
  show ?thesis
  proof (cases "dnsServices p (ID zone)")
    case None
    with \<open>validateInputDNSData rc zone = None\<close> show ?thesis
      by (intro unknown Delete_unknown_zone)
  next
    case (Some cl)
    with \<open>validateInputDNSData rc zone = None\<close> r show ?thesis
      by (intro run [of r cl]) (simp_all add: Delete_run)
  qed
qed

lemma delete_call_ok_content:
  "delete_call_ok (opt\<lparr>lContent := x\<rparr>) c = delete_call_ok opt c"
  by (cases c) simp_all

lemma delete_entries_calls_ok:
  "c \<in> set (calls (delete_entries cl es w)) \<Longrightarrow> delete_call_ok opt c"
proof (induction es arbitrary: w)
  case Nil
  then show ?case by simp
next
  case (Cons e es)
  have IH: "\<And>w. c \<in> set (calls (delete_entries cl es w)) \<Longrightarrow> delete_call_ok opt c"
    by (rule Cons.IH)
  from Cons.prems show ?case
    by (auto simp: Let_def dest!: IH split: prod.splits option.splits if_splits)
qed

lemma and_then_calls:
  "c \<in> set (calls (and_then r k)) \<Longrightarrow> c \<in> set (calls r) \<or> c \<in> set (calls (k (world r)))"
  by (auto simp: and_then_def Let_def split: option.splits)

lemma delete_loop_calls_ok:
  "c \<in> set (calls (delete_loop cl opt ts w)) \<Longrightarrow> delete_call_ok opt c"
proof (induction ts arbitrary: opt w)
  case Nil
  then show ?case by simp
next
  case (Cons t ts)
  have IH: "\<And>opt w. c \<in> set (calls (delete_loop cl opt ts w)) \<Longrightarrow> delete_call_ok opt c"
    by (rule Cons.IH)
  from Cons.prems show ?case
    by (auto simp: Let_def delete_call_ok_content
        dest!: IH and_then_calls delete_entries_calls_ok [where opt = "opt\<lparr>lContent := Some t\<rparr>"]
        split: prod.splits option.splits if_splits)
qed

lemma in_written_ttls:
  "x \<in> set (written_ttls tr) \<Longrightarrow> \<exists>c\<in>set tr. x \<in> set (written_ttl_of c)"
  by (auto simp: written_ttls_def)

lemma in_written_names:
  "x \<in> set (written_names tr) \<Longrightarrow> \<exists>c\<in>set tr. x \<in> set (written_name_of c)"
  by (auto simp: written_names_def)

lemma in_filter_names:
  "x \<in> set (filter_names tr) \<Longrightarrow> \<exists>c\<in>set tr. x \<in> set (filter_name_of c)"
  by (auto simp: filter_names_def)

lemma upsert_ok_ttl:
  "upsert_call_ok r opt c \<Longrightarrow> x \<in> set (written_ttl_of c) \<Longrightarrow> x = Some (RecordTTL (Spec r))"
  by (cases c) auto

lemma upsert_ok_written_name:
  "upsert_call_ok r opt c \<Longrightarrow> x \<in> set (written_name_of c) \<Longrightarrow> x = Some (DNSName (Spec r))"
  by (cases c) auto

lemma upsert_ok_filter_name:
  "upsert_call_ok r opt c \<Longrightarrow> x \<in> set (filter_name_of c) \<Longrightarrow> x = lName opt"
  by (cases c) auto

lemma delete_ok_filter_name:
  "delete_call_ok opt c \<Longrightarrow> x \<in> set (filter_name_of c) \<Longrightarrow> x = lName opt"
  by (cases c) auto

lemma withTTL_simps [simp]:
  "RecordTTL (Spec (withTTL r ttl)) = ttl"
  "DNSName (Spec (withTTL r ttl)) = DNSName (Spec r)"
  "RecordType (Spec (withTTL r ttl)) = RecordType (Spec r)"
  "Targets (Spec (withTTL r ttl)) = Targets (Spec r)"
  by (simp_all add: withTTL_def)

lemma createOrUpdate_written_ttls:
  assumes "x \<in> set (written_ttls (issued (createOrUpdateDNSRecord p (Some r) zone w)))"
  shows "x = Some (normalizeTTL (RecordTTL (Spec r)))"
proof (cases rule: createOrUpdate_cases [of "Some r" zone p w])
  case (invalid err)
  with assms show ?thesis by (simp add: written_ttls_def)
next
  case unknown
  with assms show ?thesis by (simp add: written_ttls_def)
next
  case (run r' cl)
  then have "r' = r" by simp
  with run assms obtain c where
    c: "c \<in> set (calls (createOrUpdate_loop cl (withTTL r (normalizeTTL (RecordTTL (Spec r))))
          (upsertListOptions r) (Targets (Spec r)) w))"
    and x: "x \<in> set (written_ttl_of c)"
    by (auto dest: in_written_ttls)
  from upsert_ok_ttl [OF createOrUpdate_loop_calls_ok [OF c] x] show ?thesis by simp
qed

lemma createOrUpdate_written_names:
  assumes "x \<in> set (written_names (issued (createOrUpdateDNSRecord p (Some r) zone w)))"
  shows "x = Some (DNSName (Spec r))"
proof (cases rule: createOrUpdate_cases [of "Some r" zone p w])
  case (invalid err)
  with assms show ?thesis by (simp add: written_names_def)
next
  case unknown
  with assms show ?thesis by (simp add: written_names_def)
next
  case (run r' cl)
  then have "r' = r" by simp
  with run assms obtain c where
    c: "c \<in> set (calls (createOrUpdate_loop cl (withTTL r (normalizeTTL (RecordTTL (Spec r))))
          (upsertListOptions r) (Targets (Spec r)) w))"
    and x: "x \<in> set (written_name_of c)"
    by (auto dest: in_written_names)
  from upsert_ok_written_name [OF createOrUpdate_loop_calls_ok [OF c] x] show ?thesis by simp
qed

lemma createOrUpdate_filter_names:
  assumes "x \<in> set (filter_names (issued (createOrUpdateDNSRecord p (Some r) zone w)))"
  shows "x = Some (TrimSuffix (DNSName (Spec r)) ''.'')"
proof (cases rule: createOrUpdate_cases [of "Some r" zone p w])
  case (invalid err)
  with assms show ?thesis by (simp add: filter_names_def)
next
  case unknown
  with assms show ?thesis by (simp add: filter_names_def)
next
  case (run r' cl)
  then have "r' = r" by simp
  with run assms obtain c where
    c: "c \<in> set (calls (createOrUpdate_loop cl (withTTL r (normalizeTTL (RecordTTL (Spec r))))
          (upsertListOptions r) (Targets (Spec r)) w))"
    and x: "x \<in> set (filter_name_of c)"
    by (auto dest: in_filter_names)
  from upsert_ok_filter_name [OF createOrUpdate_loop_calls_ok [OF c] x] show ?thesis
    by (simp add: upsertListOptions_def)
qed

lemma Delete_filter_names:
  assumes "x \<in> set (filter_names (issued (Delete p (Some r) zone w)))"
  shows "x = Some (DNSName (Spec r))"
proof (cases rule: Delete_cases [of "Some r" zone p w])
  case (invalid err)
  with assms show ?thesis by (simp add: filter_names_def)
next
  case unknown
  with assms show ?thesis by (simp add: filter_names_def)
next
  case (run r' cl)
  then have "r' = r" by simp
  with run assms obtain c where
    c: "c \<in> set (calls (delete_loop cl (deleteListOptions r) (Targets (Spec r)) w))"
    and x: "x \<in> set (filter_name_of c)"
    by (auto dest: in_filter_names)
  from delete_ok_filter_name [OF delete_loop_calls_ok [OF c] x] show ?thesis
    by (simp add: deleteListOptions_def)
qed

lemma createOrUpdate_first_call:
  assumes "validateInputDNSData (Some r) zone = None" "dnsServices p (ID zone) = Some cl"
  shows "\<exists>t rest. t \<in> set (Targets (Spec r)) \<and>
           issued (createOrUpdateDNSRecord p (Some r) zone w) =
           ListCall \<lparr>lType = Some (RecordType (Spec r)),
                     lName = Some (TrimSuffix (DNSName (Spec r)) ''.''),
                     lContent = Some t\<rparr> # rest"
proof -
  from assms(1) obtain t ts where ts: "Targets (Spec r) = t # ts"
    by (cases "Targets (Spec r)") (auto simp: validate_passes_iff)
  show ?thesis
    by (simp add: createOrUpdate_run [OF assms] ts Let_def upsertListOptions_def
        split: prod.splits)
qed

lemma Delete_first_call:
  assumes "validateInputDNSData (Some r) zone = None" "dnsServices p (ID zone) = Some cl"
  shows "\<exists>t rest. t \<in> set (Targets (Spec r)) \<and>
           issued (Delete p (Some r) zone w) =
           ListCall \<lparr>lType = Some (RecordType (Spec r)),
                     lName = Some (DNSName (Spec r)),
                     lContent = Some t\<rparr> # rest"
proof -
  from assms(1) obtain t ts where ts: "Targets (Spec r) = t # ts"
    by (cases "Targets (Spec r)") (auto simp: validate_passes_iff)
  show ?thesis
    by (simp add: Delete_run [OF assms] ts Let_def deleteListOptions_def
        split: prod.splits)
qed

lemma HasSuffix_dot: "HasSuffix s ''.'' \<longleftrightarrow> (\<exists>s'. s = s' @ ''.'')"
proof
  assume "HasSuffix s ''.''"
  then have "length s \<ge> 1" "drop (length s - 1) s = ''.''"
    by (simp_all add: HasSuffix_def)
  then have "s = take (length s - 1) s @ ''.''"
    by (metis append_take_drop_id)
  then show "\<exists>s'. s = s' @ ''.''" ..
next
  assume "\<exists>s'. s = s' @ ''.''"
  then show "HasSuffix s ''.''" by (auto simp: HasSuffix_def)
qed

lemma TrimSuffix_dot: "TrimSuffix (s @ ''.'') ''.'' = s"
  by (simp add: TrimSuffix_def HasSuffix_def)

lemma TrimSuffix_no_dot: "\<not> HasSuffix s ''.'' \<Longrightarrow> TrimSuffix s ''.'' = s"
  by (simp add: TrimSuffix_def)

subsection \<open>Validation\<close>

text \<open>
  Claim C5. \<open>validateInputDNSData\<close> reports one failure for each violated rule, in the
  order record nil, name empty, type empty, targets empty, zone id empty, and does not
  stop at the first: its result is the aggregate of the failures of exactly the violated
  rules. The name, type and targets rules are about a record that is there. Validation
  passes exactly when no rule is violated.
\<close>

theorem validation_reports_every_violated_rule:
  "validateInputDNSData rc zone =
     NewAggregate (map failure_of (filter (violated rc zone) all_rules)) \<and>
   (validateInputDNSData rc zone = None \<longleftrightarrow> (\<forall>rule\<in>set all_rules. \<not> violated rc zone rule)) \<and>
   (\<forall>e. validateInputDNSData rc zone = Some e \<longrightarrow>
      e = Aggregate (map failure_of (filter (violated rc zone) all_rules)) \<and>
      length (filter (violated rc zone) all_rules) \<ge> 1)"
proof -
  have eq: "validateInputDNSData rc zone =
     NewAggregate (map failure_of (filter (violated rc zone) all_rules))"
    by (cases rc) (simp_all add: validateInputDNSData_def all_rules_def)
  have none: "(NewAggregate (map failure_of (filter (violated rc zone) all_rules)) = None) =
     (\<forall>rule\<in>set all_rules. \<not> violated rc zone rule)"
    by (simp add: NewAggregate_def filter_empty_conv)
  have some: "NewAggregate (map failure_of (filter (violated rc zone) all_rules)) = Some e \<Longrightarrow>
      e = Aggregate (map failure_of (filter (violated rc zone) all_rules)) \<and>
      length (filter (violated rc zone) all_rules) \<ge> 1" for e
    by (cases "filter (violated rc zone) all_rules") (auto simp: NewAggregate_def split: if_splits)
  show ?thesis
  proof (intro conjI allI impI)
    show "validateInputDNSData rc zone =
      NewAggregate (map failure_of (filter (violated rc zone) all_rules))"
      by (rule eq)
    show "(validateInputDNSData rc zone = None) =
      (\<forall>rule\<in>set all_rules. \<not> violated rc zone rule)"
      unfolding eq by (rule none)
  next
    fix e assume "validateInputDNSData rc zone = Some e"
    then have e: "NewAggregate (map failure_of (filter (violated rc zone) all_rules)) = Some e"
      unfolding eq .
    from some [OF e] show "e = Aggregate (map failure_of (filter (violated rc zone) all_rules))"
      and "1 \<le> length (filter (violated rc zone) all_rules)"
      by (rule conjunct1, rule conjunct2)
  qed
qed

theorem validation_reports_every_violated_rule_witness:
  "validateInputDNSData (Some (exampleRecord [] [] 30)) \<lparr>ID = []\<rparr> =
     Some (Aggregate
       [New ''validateInputDNSData: dns record name is empty'',
        New ''validateInputDNSData: dns record content is empty'',
        New ''validateInputDNSData: dns zone id is empty'']) \<and>
   validateInputDNSData None \<lparr>ID = ''zone-1''\<rparr> =
     Some (Aggregate [New ''validateInputDNSData: dns record is nil'']) \<and>
   filter (violated (Some (exampleRecord ''a.example.com'' [''1.2.3.4''] 30)) \<lparr>ID = ''zone-1''\<rparr>)
     all_rules = [] \<and>
   validateInputDNSData (Some (exampleRecord ''a.example.com'' [''1.2.3.4''] 30)) \<lparr>ID = ''zone-1''\<rparr> = None"
proof (intro conjI)
  have "validateInputDNSData (Some (exampleRecord [] [] 30)) \<lparr>ID = []\<rparr> =
      NewAggregate (map failure_of
        (filter (violated (Some (exampleRecord [] [] 30)) \<lparr>ID = []\<rparr>) all_rules))"
    using validation_reports_every_violated_rule by (rule conjunct1)
  also have "\<dots> = Some (Aggregate
       [New ''validateInputDNSData: dns record name is empty'',
        New ''validateInputDNSData: dns record content is empty'',
        New ''validateInputDNSData: dns zone id is empty''])"
    by (simp add: all_rules_def exampleRecord_def NewAggregate_def)
  finally show "validateInputDNSData (Some (exampleRecord [] [] 30)) \<lparr>ID = []\<rparr> =
     Some (Aggregate
       [New ''validateInputDNSData: dns record name is empty'',
        New ''validateInputDNSData: dns record content is empty'',
        New ''validateInputDNSData: dns zone id is empty''])" .
  have "validateInputDNSData None \<lparr>ID = ''zone-1''\<rparr> =
      NewAggregate (map failure_of (filter (violated None \<lparr>ID = ''zone-1''\<rparr>) all_rules))"
    using validation_reports_every_violated_rule by (rule conjunct1)
  also have "\<dots> = Some (Aggregate [New ''validateInputDNSData: dns record is nil''])"
    by (simp add: all_rules_def NewAggregate_def)
  finally show "validateInputDNSData None \<lparr>ID = ''zone-1''\<rparr> =
     Some (Aggregate [New ''validateInputDNSData: dns record is nil''])" .
  show none: "filter (violated (Some (exampleRecord ''a.example.com'' [''1.2.3.4''] 30))
      \<lparr>ID = ''zone-1''\<rparr>) all_rules = []"
    by (simp add: all_rules_def exampleRecord_def)
  then have ok: "\<forall>rule\<in>set all_rules.
      \<not> violated (Some (exampleRecord ''a.example.com'' [''1.2.3.4''] 30)) \<lparr>ID = ''zone-1''\<rparr> rule"
    by (simp only: filter_empty_conv)
  from validation_reports_every_violated_rule
  have "(validateInputDNSData (Some (exampleRecord ''a.example.com'' [''1.2.3.4''] 30))
          \<lparr>ID = ''zone-1''\<rparr> = None) =
        (\<forall>rule\<in>set all_rules.
          \<not> violated (Some (exampleRecord ''a.example.com'' [''1.2.3.4''] 30)) \<lparr>ID = ''zone-1''\<rparr> rule)"
    by (rule conjunct2 [THEN conjunct1])
  from this ok show "validateInputDNSData (Some (exampleRecord ''a.example.com'' [''1.2.3.4''] 30))
          \<lparr>ID = ''zone-1''\<rparr> = None"
    by (rule iffD2)
qed

subsection \<open>Failures before the first remote call\<close>

text \<open>
  Claim C4, as amended. When the input fails validation, or the zone id is not in the
  registry, \<open>Ensure\<close>, \<open>Replace\<close> and \<open>Delete\<close> return an error, issue no remote call
  and leave the remote state as it was. Validation is checked first: when it fails, the
  error is the wrapped validation aggregate, whatever the zone; when it passes and the
  zone id is not registered, the error is the unknown-zone message ending in the zone
  id.
\<close>

theorem invalid_input_or_unknown_zone_makes_no_call:
  "((validateInputDNSData rc zone \<noteq> None \<or> dnsServices p (ID zone) = None) \<longrightarrow>
      (\<exists>e. returned (Ensure p rc zone w) = Return (Some e)) \<and>
      issued (Ensure p rc zone w) = [] \<and> remote_after (Ensure p rc zone w) = w \<and>
      (\<exists>e. returned (Replace p rc zone w) = Return (Some e)) \<and>
      issued (Replace p rc zone w) = [] \<and> remote_after (Replace p rc zone w) = w \<and>
      (\<exists>e. returned (Delete p rc zone w) = Return (Some e)) \<and>
      issued (Delete p rc zone w) = [] \<and> remote_after (Delete p rc zone w) = w) \<and>
   (\<forall>err. validateInputDNSData rc zone = Some err \<longrightarrow>
      returned (Ensure p rc zone w) =
        Return (Some (Wrap ''createOrUpdateDNSRecord: invalid dns input data: '' err)) \<and>
      returned (Replace p rc zone w) =
        Return (Some (Wrap ''createOrUpdateDNSRecord: invalid dns input data: '' err)) \<and>
      returned (Delete p rc zone w) =
        Return (Some (Wrap ''delete: invalid dns input data: '' err))) \<and>
   (validateInputDNSData rc zone = None \<and> dnsServices p (ID zone) = None \<longrightarrow>
      returned (Ensure p rc zone w) =
        Return (Some (New (''createOrUpdateDNSRecord: unknown zone: '' @ ID zone))) \<and>
      returned (Replace p rc zone w) =
        Return (Some (New (''createOrUpdateDNSRecord: unknown zone: '' @ ID zone))) \<and>
      returned (Delete p rc zone w) =
        Return (Some (New (''delete: unknown zone: '' @ ID zone))))"
proof -
  have upsert: "(validateInputDNSData rc zone \<noteq> None \<or> dnsServices p (ID zone) = None) \<longrightarrow>
      (\<exists>e. returned (createOrUpdateDNSRecord p rc zone w) = Return (Some e)) \<and>
      issued (createOrUpdateDNSRecord p rc zone w) = [] \<and>
      remote_after (createOrUpdateDNSRecord p rc zone w) = w"
    by (cases rule: createOrUpdate_cases [of rc zone p w]) simp_all
  have del: "(validateInputDNSData rc zone \<noteq> None \<or> dnsServices p (ID zone) = None) \<longrightarrow>
      (\<exists>e. returned (Delete p rc zone w) = Return (Some e)) \<and>
      issued (Delete p rc zone w) = [] \<and> remote_after (Delete p rc zone w) = w"
    by (cases rule: Delete_cases [of rc zone p w]) simp_all
  have invalid: "validateInputDNSData rc zone = Some err \<longrightarrow>
      returned (createOrUpdateDNSRecord p rc zone w) =
        Return (Some (Wrap ''createOrUpdateDNSRecord: invalid dns input data: '' err)) \<and>
      returned (Delete p rc zone w) =
        Return (Some (Wrap ''delete: invalid dns input data: '' err))" for err
    by (simp add: createOrUpdate_invalid Delete_invalid)
  have unknown: "validateInputDNSData rc zone = None \<and> dnsServices p (ID zone) = None \<longrightarrow>
      returned (createOrUpdateDNSRecord p rc zone w) =
        Return (Some (New (''createOrUpdateDNSRecord: unknown zone: '' @ ID zone))) \<and>
      returned (Delete p rc zone w) =
        Return (Some (New (''delete: unknown zone: '' @ ID zone)))"
    by (simp add: createOrUpdate_unknown_zone Delete_unknown_zone)
  show ?thesis
    unfolding Ensure_def Replace_def
    by (intro conjI allI) (use upsert del invalid unknown in simp_all)
qed

theorem invalid_input_or_unknown_zone_makes_no_call_witness:
  "validateInputDNSData None \<lparr>ID = ''zone-1''\<rparr> \<noteq> None \<and>
   issued (Ensure (providerOf ''zone-1'' (cannedClient (listed []) succeeded)) None
             \<lparr>ID = ''zone-1''\<rparr> ()) = [] \<and>
   returned (Delete (providerOf ''zone-1'' (cannedClient (listed []) succeeded)) None
             \<lparr>ID = ''zone-1''\<rparr> ()) =
     Return (Some (Wrap ''delete: invalid dns input data: ''
       (Aggregate [New ''validateInputDNSData: dns record is nil'']))) \<and>
   validateInputDNSData (Some (exampleRecord ''a.example.com'' [''1.2.3.4''] 30))
     \<lparr>ID = ''missing''\<rparr> = None \<and>
   dnsServices (providerOf ''zone-1'' (cannedClient (listed []) succeeded))
     (ID \<lparr>ID = ''missing''\<rparr>) = None \<and>
   returned (Ensure (providerOf ''zone-1'' (cannedClient (listed []) succeeded))
      (Some (exampleRecord ''a.example.com'' [''1.2.3.4''] 30)) \<lparr>ID = ''missing''\<rparr> ()) =
     Return (Some (New ''createOrUpdateDNSRecord: unknown zone: missing'')) \<and>
   issued (Replace (providerOf ''zone-1'' (cannedClient (listed []) succeeded))
      (Some (exampleRecord ''a.example.com'' [''1.2.3.4''] 30)) \<lparr>ID = ''missing''\<rparr> ()) = []"
proof -
  let ?p = "providerOf ''zone-1'' (cannedClient (listed []) succeeded)"
  let ?r = "Some (exampleRecord ''a.example.com'' [''1.2.3.4''] 30)"
  have nil: "validateInputDNSData None \<lparr>ID = ''zone-1''\<rparr> =
      Some (Aggregate [New ''validateInputDNSData: dns record is nil''])"
    by (simp add: validateInputDNSData_def NewAggregate_def)
  have valid: "validateInputDNSData ?r \<lparr>ID = ''missing''\<rparr> = None"
    by (simp add: validateInputDNSData_def NewAggregate_def exampleRecord_def)
  have absent: "dnsServices ?p (ID \<lparr>ID = ''missing''\<rparr>) = None"
    by (simp add: providerOf_def)
  note t1 = invalid_input_or_unknown_zone_makes_no_call
    [of None "\<lparr>ID = ''zone-1''\<rparr>" ?p "()"]
  note t2 = invalid_input_or_unknown_zone_makes_no_call
    [of ?r "\<lparr>ID = ''missing''\<rparr>" ?p "()"]
  from nil have h1: "validateInputDNSData None \<lparr>ID = ''zone-1''\<rparr> \<noteq> None \<or>
      dnsServices ?p (ID \<lparr>ID = ''zone-1''\<rparr>) = None"
    by simp
  from absent have h2: "validateInputDNSData ?r \<lparr>ID = ''missing''\<rparr> \<noteq> None \<or>
      dnsServices ?p (ID \<lparr>ID = ''missing''\<rparr>) = None"
    by (rule disjI2)
  have a: "issued (Ensure ?p None \<lparr>ID = ''zone-1''\<rparr> ()) = []"
    using t1 [THEN conjunct1, rule_format, OF h1] by (elim conjE)
  have b: "returned (Delete ?p None \<lparr>ID = ''zone-1''\<rparr> ()) =
     Return (Some (Wrap ''delete: invalid dns input data: ''
       (Aggregate [New ''validateInputDNSData: dns record is nil''])))"
    using t1 [THEN conjunct2, THEN conjunct1, rule_format, OF nil] by (elim conjE)
  have c: "returned (Ensure ?p ?r \<lparr>ID = ''missing''\<rparr> ()) =
     Return (Some (New (''createOrUpdateDNSRecord: unknown zone: '' @ ID \<lparr>ID = ''missing''\<rparr>)))"
    using t2 [THEN conjunct2, THEN conjunct2, rule_format, OF conjI [OF valid absent]]
    by (elim conjE)
  have d: "issued (Replace ?p ?r \<lparr>ID = ''missing''\<rparr> ()) = []"
    using t2 [THEN conjunct1, rule_format, OF h2] by (elim conjE)
  from nil have e: "validateInputDNSData None \<lparr>ID = ''zone-1''\<rparr> \<noteq> None" by simp
  from c have c': "returned (Ensure ?p ?r \<lparr>ID = ''missing''\<rparr> ()) =
     Return (Some (New ''createOrUpdateDNSRecord: unknown zone: missing''))" by simp
  from e a b valid absent c' d show ?thesis by (intro conjI)
qed

text \<open>
  The claim as it stands promises an error that identifies the zone for every zone id
  that is not registered. For a nil record, or a record with an empty name, in the
  unregistered zone \<open>missing\<close> the error is the validation error, which does not name
  the zone.
\<close>

theorem invalid_input_or_unknown_zone_makes_no_call_counterexample:
  "dnsServices (providerOf ''zone-1'' (cannedClient (listed []) succeeded))
     (ID \<lparr>ID = ''missing''\<rparr>) = None \<and>
   returned (Ensure (providerOf ''zone-1'' (cannedClient (listed []) succeeded)) None
     \<lparr>ID = ''missing''\<rparr> ()) =
     Return (Some (Wrap ''createOrUpdateDNSRecord: invalid dns input data: ''
       (Aggregate [New ''validateInputDNSData: dns record is nil'']))) \<and>
   returned (Ensure (providerOf ''zone-1'' (cannedClient (listed []) succeeded)) None
     \<lparr>ID = ''missing''\<rparr> ()) \<noteq>
     Return (Some (New ''createOrUpdateDNSRecord: unknown zone: missing'')) \<and>
   returned (Replace (providerOf ''zone-1'' (cannedClient (listed []) succeeded))
     (Some (exampleRecord [] [''1.2.3.4''] 300)) \<lparr>ID = ''missing''\<rparr> ()) =
     Return (Some (Wrap ''createOrUpdateDNSRecord: invalid dns input data: ''
       (Aggregate [New ''validateInputDNSData: dns record name is empty'']))) \<and>
   returned (Delete (providerOf ''zone-1'' (cannedClient (listed []) succeeded))
     (Some (exampleRecord [] [''1.2.3.4''] 300)) \<lparr>ID = ''missing''\<rparr> ()) =
     Return (Some (Wrap ''delete: invalid dns input data: ''
       (Aggregate [New ''validateInputDNSData: dns record name is empty'']))) \<and>
   returned (Delete (providerOf ''zone-1'' (cannedClient (listed []) succeeded))
     (Some (exampleRecord [] [''1.2.3.4''] 300)) \<lparr>ID = ''missing''\<rparr> ()) \<noteq>
     Return (Some (New ''delete: unknown zone: missing''))"
  by (simp add: Ensure_def Replace_def Delete_def createOrUpdateDNSRecord_def
      validateInputDNSData_def NewAggregate_def exampleRecord_def providerOf_def fail_early_def)

subsection \<open>The TTL rule\<close>

lemma normalizeTTL_cases:
  "normalizeTTL ttl = (if (1 < ttl \<and> ttl < 120) \<or> ttl = 0 then 120 else ttl)"
  by (simp add: normalizeTTL_def defaultCISRecordTTL_def)

lemma Ensure_written_ttls:
  "x \<in> set (written_ttls (issued (Ensure p (Some r) zone w))) \<Longrightarrow>
   x = Some (normalizeTTL (RecordTTL (Spec r)))"
  unfolding Ensure_def by (rule createOrUpdate_written_ttls)

lemma Replace_written_ttls:
  "x \<in> set (written_ttls (issued (Replace p (Some r) zone w))) \<Longrightarrow>
   x = Some (normalizeTTL (RecordTTL (Spec r)))"
  unfolding Replace_def by (rule createOrUpdate_written_ttls)

text \<open>
  A run to look at: one target, nothing listed for it, so the entry is created. The
  list call carries the trimmed name, the create call the name as given and the
  effective TTL.
\<close>

lemma create_run:
  "issued (createOrUpdateDNSRecord (providerOf ''zone-1'' (cannedClient (listed []) succeeded))
      (Some (exampleRecord name [''1.2.3.4''] ttl)) \<lparr>ID = ''zone-1''\<rparr> ()) =
   (if name = [] then []
    else [ListCall \<lparr>lType = Some ''A'', lName = Some (TrimSuffix name ''.''),
                    lContent = Some ''1.2.3.4''\<rparr>,
          CreateCall \<lparr>cName = Some name, cType = Some ''A'', cContent = Some ''1.2.3.4'',
                      cTTL = Some (normalizeTTL ttl)\<rparr>])"
  by (simp add: createOrUpdateDNSRecord_def validateInputDNSData_def NewAggregate_def
      exampleRecord_def providerOf_def cannedClient_def listed_def succeeded_def Let_def
      NewListAllDnsRecordsOptions_def NewCreateDnsRecordOptions_def)

text \<open>
  Claim C2, as amended. The effective TTL is the default 120 when the requested TTL is 0
  or lies strictly between 1 and 120, and the requested TTL otherwise; this lets the
  automatic sentinel 1, every value from 120 on and every negative value through. It is
  computed once, before the loop: every create and update call of one upsert carries it.
\<close>

theorem effective_ttl:
  "normalizeTTL ttl = (if (1 < ttl \<and> ttl < 120) \<or> ttl = 0 then 120 else ttl) \<and>
   (\<forall>x\<in>set (written_ttls (issued (createOrUpdateDNSRecord p (Some r) zone w))).
      x = Some (if (1 < RecordTTL (Spec r) \<and> RecordTTL (Spec r) < 120) \<or> RecordTTL (Spec r) = 0
                then 120 else RecordTTL (Spec r)))"
proof (intro conjI ballI)
  show "normalizeTTL ttl = (if (1 < ttl \<and> ttl < 120) \<or> ttl = 0 then 120 else ttl)"
    by (rule normalizeTTL_cases)
next
  fix x assume "x \<in> set (written_ttls (issued (createOrUpdateDNSRecord p (Some r) zone w)))"
  then have "x = Some (normalizeTTL (RecordTTL (Spec r)))"
    by (rule createOrUpdate_written_ttls)
  then show "x = Some (if (1 < RecordTTL (Spec r) \<and> RecordTTL (Spec r) < 120) \<or>
      RecordTTL (Spec r) = 0 then 120 else RecordTTL (Spec r))"
    by (simp only: normalizeTTL_cases)
qed

theorem effective_ttl_witness:
  "normalizeTTL 50 = 120 \<and> normalizeTTL 1 = 1 \<and> normalizeTTL (- 5) = - 5 \<and>
   written_ttls (issued (createOrUpdateDNSRecord
      (providerOf ''zone-1'' (cannedClient (listed []) succeeded))
      (Some (exampleRecord ''a.example.com'' [''1.2.3.4''] 50)) \<lparr>ID = ''zone-1''\<rparr> ())) =
     [Some 120]"
proof -
  let ?run = "createOrUpdateDNSRecord (providerOf ''zone-1'' (cannedClient (listed []) succeeded))
      (Some (exampleRecord ''a.example.com'' [''1.2.3.4''] 50)) \<lparr>ID = ''zone-1''\<rparr> ()"
  have a: "normalizeTTL 50 = 120" "normalizeTTL 1 = 1" "normalizeTTL (- 5) = - 5"
    using effective_ttl [THEN conjunct1] by simp_all
  have "written_ttls (issued ?run) = [Some (normalizeTTL 50)]"
    by (simp add: create_run written_ttls_def)
  moreover have "\<forall>x\<in>set (written_ttls (issued ?run)).
      x = Some (if (1 < (50::int) \<and> (50::int) < 120) \<or> (50::int) = 0 then 120 else 50)"
    using effective_ttl [where p = "providerOf ''zone-1'' (cannedClient (listed []) succeeded)"
        and r = "exampleRecord ''a.example.com'' [''1.2.3.4''] 50"
        and zone = "\<lparr>ID = ''zone-1''\<rparr>" and w = "()", THEN conjunct2]
    by (simp only: exampleRecord_def DNSRecord.simps DNSRecordSpec.simps)
  ultimately have b: "written_ttls (issued ?run) = [Some 120]" by simp
  from a b show ?thesis by (intro conjI)
qed

text \<open>
  The claim as it stands asks for 120 at every requested TTL strictly between 0 and 120.
  At the requested TTL 1 the code keeps 1, and sends 1.
\<close>

theorem effective_ttl_counterexample:
  "\<not> ((0 < (1::int) \<and> (1::int) < 120) \<or> (1::int) = 0 \<longrightarrow> normalizeTTL 1 = 120) \<and>
   written_ttls (issued (createOrUpdateDNSRecord
      (providerOf ''zone-1'' (cannedClient (listed []) succeeded))
      (Some (exampleRecord ''a.example.com'' [''1.2.3.4''] 1)) \<lparr>ID = ''zone-1''\<rparr> ())) =
     [Some 1]"
  by (simp add: create_run written_ttls_def normalizeTTL_cases)

text \<open>
  Claim C3. For the requested TTLs 0, 1, 50, 119, 120, 121 and 2147483647 the effective
  TTL is 120, 1, 120, 120, 120, 121 and 2147483647, and it is the TTL of every create
  and update call that \<open>Ensure\<close> and \<open>Replace\<close> issue for a record with that requested
  TTL.
\<close>

theorem ttl_table_holds:
  "\<forall>(requested, effective)\<in>set ttl_table.
     normalizeTTL requested = effective \<and>
     (RecordTTL (Spec r) = requested \<longrightarrow>
        (\<forall>x\<in>set (written_ttls (issued (Ensure p (Some r) zone w))). x = Some effective) \<and>
        (\<forall>x\<in>set (written_ttls (issued (Replace p (Some r) zone w))). x = Some effective))"
proof -
  have table: "\<forall>(requested, effective)\<in>set ttl_table. normalizeTTL requested = effective"
    by (simp add: ttl_table_def normalizeTTL_cases)
  show ?thesis
  proof (intro ballI, clarify, intro conjI impI ballI)
    fix requested effective
    assume "(requested, effective) \<in> set ttl_table"
    with table show eff: "normalizeTTL requested = effective" by auto
    assume rq: "RecordTTL (Spec r) = requested"
    { fix x assume "x \<in> set (written_ttls (issued (Ensure p (Some r) zone w)))"
      from Ensure_written_ttls [OF this] show "x = Some effective"
        by (simp only: rq eff) }
    { fix x assume "x \<in> set (written_ttls (issued (Replace p (Some r) zone w)))"
      from Replace_written_ttls [OF this] show "x = Some effective"
        by (simp only: rq eff) }
  qed
qed

theorem ttl_table_holds_witness:
  "(50, 120) \<in> set ttl_table \<and> normalizeTTL 50 = 120 \<and>
   written_ttls (issued (Ensure (providerOf ''zone-1'' (cannedClient (listed []) succeeded))
     (Some (exampleRecord ''a.example.com'' [''1.2.3.4''] 50)) \<lparr>ID = ''zone-1''\<rparr> ())) =
     [Some 120] \<and>
   (2147483647, 2147483647) \<in> set ttl_table \<and>
   written_ttls (issued (Replace (providerOf ''zone-1'' (cannedClient (listed []) succeeded))
     (Some (exampleRecord ''a.example.com'' [''1.2.3.4''] 2147483647)) \<lparr>ID = ''zone-1''\<rparr> ())) =
     [Some 2147483647]"
proof -
  let ?p = "providerOf ''zone-1'' (cannedClient (listed []) succeeded)"
  let ?z = "\<lparr>ID = ''zone-1''\<rparr>"
  have in1: "(50, 120) \<in> set ttl_table" and in2: "(2147483647, 2147483647) \<in> set ttl_table"
    by (simp_all add: ttl_table_def)
  note t1 = ttl_table_holds [where r = "exampleRecord ''a.example.com'' [''1.2.3.4''] 50"
      and p = ?p and zone = ?z and w = "()", THEN bspec, OF in1, simplified prod.case]
  note t2 = ttl_table_holds [where r = "exampleRecord ''a.example.com'' [''1.2.3.4''] 2147483647"
      and p = ?p and zone = ?z and w = "()", THEN bspec, OF in2, simplified prod.case]
  have n: "normalizeTTL 50 = 120" by (rule t1 [THEN conjunct1])
  have ttl1: "RecordTTL (Spec (exampleRecord ''a.example.com'' [''1.2.3.4''] 50)) = 50"
    and ttl2: "RecordTTL (Spec (exampleRecord ''a.example.com'' [''1.2.3.4''] 2147483647)) =
      2147483647"
    by (simp_all add: exampleRecord_def)
  have "written_ttls (issued (Ensure ?p (Some (exampleRecord ''a.example.com'' [''1.2.3.4''] 50))
      ?z ())) = [Some (normalizeTTL 50)]"
    by (simp add: Ensure_def create_run written_ttls_def)
  moreover note t1 [THEN conjunct2, rule_format, OF ttl1, THEN conjunct1]
  ultimately have a: "written_ttls (issued (Ensure ?p
      (Some (exampleRecord ''a.example.com'' [''1.2.3.4''] 50)) ?z ())) = [Some 120]"
    by simp
  have "written_ttls (issued (Replace ?p
      (Some (exampleRecord ''a.example.com'' [''1.2.3.4''] 2147483647)) ?z ())) =
      [Some (normalizeTTL 2147483647)]"
    by (simp add: Replace_def create_run written_ttls_def)
  moreover note t2 [THEN conjunct2, rule_format, OF ttl2, THEN conjunct2]
  ultimately have b: "written_ttls (issued (Replace ?p
      (Some (exampleRecord ''a.example.com'' [''1.2.3.4''] 2147483647)) ?z ())) =
      [Some 2147483647]"
    by simp
  from in1 n a in2 b show ?thesis by (intro conjI)
qed

subsection \<open>Names in the list filter and in the writes\<close>

text \<open>
  Claim C6. In the upsert path every list call filters by the desired name with one
  trailing dot stripped (a name ending in a dot loses exactly that dot, any other name
  is kept), while every create and update call carries the name as given. In the delete
  path every list call filters by the name as given. For an input that passes
  validation in a registered zone the first call of either path is such a list call.
\<close>

theorem name_trimming_asymmetry:
  "(HasSuffix s ''.'' \<longleftrightarrow> (\<exists>s'. s = s' @ ''.'')) \<and>
   TrimSuffix (s @ ''.'') ''.'' = s \<and>
   (\<not> HasSuffix s ''.'' \<longrightarrow> TrimSuffix s ''.'' = s) \<and>
   (\<forall>x\<in>set (filter_names (issued (Ensure p (Some r) zone w))).
      x = Some (TrimSuffix (DNSName (Spec r)) ''.'')) \<and>
   (\<forall>x\<in>set (written_names (issued (Ensure p (Some r) zone w))).
      x = Some (DNSName (Spec r))) \<and>
   (\<forall>x\<in>set (filter_names (issued (Replace p (Some r) zone w))).
      x = Some (TrimSuffix (DNSName (Spec r)) ''.'')) \<and>
   (\<forall>x\<in>set (written_names (issued (Replace p (Some r) zone w))).
      x = Some (DNSName (Spec r))) \<and>
   (\<forall>x\<in>set (filter_names (issued (Delete p (Some r) zone w))).
      x = Some (DNSName (Spec r))) \<and>
   (validateInputDNSData (Some r) zone = None \<and> dnsServices p (ID zone) \<noteq> None \<longrightarrow>
      (\<exists>t rest. t \<in> set (Targets (Spec r)) \<and>
         issued (Ensure p (Some r) zone w) =
           ListCall \<lparr>lType = Some (RecordType (Spec r)),
                     lName = Some (TrimSuffix (DNSName (Spec r)) ''.''),
                     lContent = Some t\<rparr> # rest) \<and>
      (\<exists>t rest. t \<in> set (Targets (Spec r)) \<and>
         issued (Delete p (Some r) zone w) =
           ListCall \<lparr>lType = Some (RecordType (Spec r)),
                     lName = Some (DNSName (Spec r)),
                     lContent = Some t\<rparr> # rest))"
proof (intro conjI ballI impI)
  show "HasSuffix s ''.'' \<longleftrightarrow> (\<exists>s'. s = s' @ ''.'')" by (rule HasSuffix_dot)
  show "TrimSuffix (s @ ''.'') ''.'' = s" by (rule TrimSuffix_dot)
  show "TrimSuffix s ''.'' = s" if "\<not> HasSuffix s ''.''" using that by (rule TrimSuffix_no_dot)
  show "x = Some (TrimSuffix (DNSName (Spec r)) ''.'')"
    if "x \<in> set (filter_names (issued (Ensure p (Some r) zone w)))" for x
    using that unfolding Ensure_def by (rule createOrUpdate_filter_names)
  show "x = Some (DNSName (Spec r))"
    if "x \<in> set (written_names (issued (Ensure p (Some r) zone w)))" for x
    using that unfolding Ensure_def by (rule createOrUpdate_written_names)
  show "x = Some (TrimSuffix (DNSName (Spec r)) ''.'')"
    if "x \<in> set (filter_names (issued (Replace p (Some r) zone w)))" for x
    using that unfolding Replace_def by (rule createOrUpdate_filter_names)
  show "x = Some (DNSName (Spec r))"
    if "x \<in> set (written_names (issued (Replace p (Some r) zone w)))" for x
    using that unfolding Replace_def by (rule createOrUpdate_written_names)
  show "x = Some (DNSName (Spec r))"
    if "x \<in> set (filter_names (issued (Delete p (Some r) zone w)))" for x
    using that by (rule Delete_filter_names)
next
  assume a: "validateInputDNSData (Some r) zone = None \<and> dnsServices p (ID zone) \<noteq> None"
  then obtain cl where cl: "dnsServices p (ID zone) = Some cl" by auto
  from a have v: "validateInputDNSData (Some r) zone = None" by (rule conjunct1)
  show "\<exists>t rest. t \<in> set (Targets (Spec r)) \<and>
         issued (Ensure p (Some r) zone w) =
           ListCall \<lparr>lType = Some (RecordType (Spec r)),
                     lName = Some (TrimSuffix (DNSName (Spec r)) ''.''),
                     lContent = Some t\<rparr> # rest"
    unfolding Ensure_def by (rule createOrUpdate_first_call [OF v cl])
  show "\<exists>t rest. t \<in> set (Targets (Spec r)) \<and>
         issued (Delete p (Some r) zone w) =
           ListCall \<lparr>lType = Some (RecordType (Spec r)),
                     lName = Some (DNSName (Spec r)),
                     lContent = Some t\<rparr> # rest"
    by (rule Delete_first_call [OF v cl])
qed

text \<open>
  The wildcard name \<open>*.apps.example.com.\<close> with one target and nothing listed for it:
  the list call asks for \<open>*.apps.example.com\<close>, the create call writes
  \<open>*.apps.example.com.\<close>.
\<close>

theorem name_trimming_asymmetry_witness:
  "filter_names (issued (Ensure (providerOf ''zone-1'' (cannedClient (listed []) succeeded))
     (Some (exampleRecord ''*.apps.example.com.'' [''1.2.3.4''] 30)) \<lparr>ID = ''zone-1''\<rparr> ())) =
     [Some ''*.apps.example.com''] \<and>
   written_names (issued (Ensure (providerOf ''zone-1'' (cannedClient (listed []) succeeded))
     (Some (exampleRecord ''*.apps.example.com.'' [''1.2.3.4''] 30)) \<lparr>ID = ''zone-1''\<rparr> ())) =
     [Some ''*.apps.example.com.''] \<and>
   filter_names (issued (Delete (providerOf ''zone-1'' (cannedClient (listed []) succeeded))
     (Some (exampleRecord ''*.apps.example.com.'' [''1.2.3.4''] 30)) \<lparr>ID = ''zone-1''\<rparr> ())) =
     [Some ''*.apps.example.com.''] \<and>
   \<not> HasSuffix ''a.example.com'' ''.'' \<and>
   TrimSuffix ''a.example.com'' ''.'' = ''a.example.com'' \<and>
   TrimSuffix ''a.example.com..'' ''.'' = ''a.example.com.'' \<and>
   validateInputDNSData (Some (exampleRecord ''*.apps.example.com.'' [''1.2.3.4''] 30))
     \<lparr>ID = ''zone-1''\<rparr> = None \<and>
   dnsServices (providerOf ''zone-1'' (cannedClient (listed []) succeeded))
     (ID \<lparr>ID = ''zone-1''\<rparr>) \<noteq> None"
proof -
  let ?p = "providerOf ''zone-1'' (cannedClient (listed []) succeeded)"
  let ?r = "exampleRecord ''*.apps.example.com.'' [''1.2.3.4''] 30"
  let ?z = "\<lparr>ID = ''zone-1''\<rparr>"
  note t = name_trimming_asymmetry [where p = ?p and r = ?r and zone = ?z and w = "()"]
  have name: "DNSName (Spec ?r) = ''*.apps.example.com.''"
    by (simp add: exampleRecord_def)
  have trim: "TrimSuffix ''*.apps.example.com.'' ''.'' = ''*.apps.example.com''"
    using t [where s = "''*.apps.example.com''", THEN conjunct2, THEN conjunct1] by simp
  have nodot: "\<not> HasSuffix ''a.example.com'' ''.''"
    by (simp add: HasSuffix_def)
  have keep: "TrimSuffix ''a.example.com'' ''.'' = ''a.example.com''"
    using t [where s = "''a.example.com''", THEN conjunct2, THEN conjunct2, THEN conjunct1] nodot
    by simp
  have twice: "TrimSuffix ''a.example.com..'' ''.'' = ''a.example.com.''"
    using t [where s = "''a.example.com.''", THEN conjunct2, THEN conjunct1] by simp
  have "filter_names (issued (Ensure ?p (Some ?r) ?z ())) =
      [Some (TrimSuffix ''*.apps.example.com.'' ''.'')]"
    by (simp add: Ensure_def create_run filter_names_def)
  then have a: "filter_names (issued (Ensure ?p (Some ?r) ?z ())) = [Some ''*.apps.example.com'']"
    by (simp only: trim)
  have b: "written_names (issued (Ensure ?p (Some ?r) ?z ())) = [Some ''*.apps.example.com.'']"
    by (simp add: Ensure_def create_run written_names_def)
  have "issued (Delete ?p (Some ?r) ?z ()) =
      [ListCall \<lparr>lType = Some ''A'', lName = Some ''*.apps.example.com.'',
                 lContent = Some ''1.2.3.4''\<rparr>]"
    by (simp add: Delete_def validateInputDNSData_def NewAggregate_def
      exampleRecord_def providerOf_def cannedClient_def listed_def succeeded_def Let_def
      NewListAllDnsRecordsOptions_def and_then_def)
  then have c: "filter_names (issued (Delete ?p (Some ?r) ?z ())) = [Some ''*.apps.example.com.'']"
    by (simp add: filter_names_def)
  have v: "validateInputDNSData (Some ?r) ?z = None"
    by (simp add: validateInputDNSData_def NewAggregate_def exampleRecord_def)
  have reg: "dnsServices ?p (ID ?z) \<noteq> None"
    by (simp add: providerOf_def)
  from a b c nodot keep twice v reg show ?thesis by (intro conjI)
qed

subsection \<open>What the operations do to the record they are given\<close>

lemma withTTL_same: "withTTL r (RecordTTL (Spec r)) = r"
  by (simp add: withTTL_def)

lemma createOrUpdate_record_after:
  "record_after (createOrUpdateDNSRecord p rc zone w) =
     (if validateInputDNSData rc zone = None \<and> dnsServices p (ID zone) \<noteq> None
      then map_option (\<lambda>r. withTTL r (normalizeTTL (RecordTTL (Spec r)))) rc
      else rc)"
  by (cases rule: createOrUpdate_cases [of rc zone p w]) auto

lemma Delete_record_after: "record_after (Delete p rc zone w) = rc"
  by (cases rule: Delete_cases [of rc zone p w]) auto

text \<open>
  Claim C9, as amended. The write-back happens after validation and zone resolution:
  when the input passes validation and the zone is registered, \<open>Ensure\<close> and \<open>Replace\<close>
  leave the caller's record with \<open>RecordTTL\<close> 120 if the requested TTL is 0 or strictly
  between 1 and 120, whatever the loop does afterwards. The record is left as it was
  for every other TTL, for every input that fails validation or names an unregistered
  zone, and by \<open>Delete\<close> on every input.
\<close>

theorem ttl_is_written_back:
  "(validateInputDNSData (Some r) zone = None \<and> dnsServices p (ID zone) \<noteq> None \<and>
    (RecordTTL (Spec r) = 0 \<or> (1 < RecordTTL (Spec r) \<and> RecordTTL (Spec r) < 120)) \<longrightarrow>
      record_after (Ensure p (Some r) zone w) = Some (withTTL r 120) \<and>
      record_after (Replace p (Some r) zone w) = Some (withTTL r 120)) \<and>
   (\<not> (RecordTTL (Spec r) = 0 \<or> (1 < RecordTTL (Spec r) \<and> RecordTTL (Spec r) < 120)) \<longrightarrow>
      record_after (Ensure p (Some r) zone w) = Some r \<and>
      record_after (Replace p (Some r) zone w) = Some r) \<and>
   (validateInputDNSData rc zone \<noteq> None \<or> dnsServices p (ID zone) = None \<longrightarrow>
      record_after (Ensure p rc zone w) = rc \<and>
      record_after (Replace p rc zone w) = rc) \<and>
   record_after (Delete p rc zone w) = rc"
proof (intro conjI impI)
  assume a: "validateInputDNSData (Some r) zone = None \<and> dnsServices p (ID zone) \<noteq> None \<and>
    (RecordTTL (Spec r) = 0 \<or> (1 < RecordTTL (Spec r) \<and> RecordTTL (Spec r) < 120))"
  then have "normalizeTTL (RecordTTL (Spec r)) = 120"
    by (auto simp: normalizeTTL_cases)
  with a have "record_after (createOrUpdateDNSRecord p (Some r) zone w) = Some (withTTL r 120)"
    by (simp add: createOrUpdate_record_after)
  then show "record_after (Ensure p (Some r) zone w) = Some (withTTL r 120)"
    and "record_after (Replace p (Some r) zone w) = Some (withTTL r 120)"
    by (simp_all add: Ensure_def Replace_def)
next
  assume "\<not> (RecordTTL (Spec r) = 0 \<or> (1 < RecordTTL (Spec r) \<and> RecordTTL (Spec r) < 120))"
  then have "normalizeTTL (RecordTTL (Spec r)) = RecordTTL (Spec r)"
    by (auto simp: normalizeTTL_cases)
  then have "record_after (createOrUpdateDNSRecord p (Some r) zone w) = Some r"
    by (simp add: createOrUpdate_record_after withTTL_same)
  then show "record_after (Ensure p (Some r) zone w) = Some r"
    and "record_after (Replace p (Some r) zone w) = Some r"
    by (simp_all add: Ensure_def Replace_def)
next
  assume "validateInputDNSData rc zone \<noteq> None \<or> dnsServices p (ID zone) = None"
  then have "record_after (createOrUpdateDNSRecord p rc zone w) = rc"
    by (auto simp: createOrUpdate_record_after)
  then show "record_after (Ensure p rc zone w) = rc"
    and "record_after (Replace p rc zone w) = rc"
    by (simp_all add: Ensure_def Replace_def)
next
  show "record_after (Delete p rc zone w) = rc" by (rule Delete_record_after)
qed

theorem ttl_is_written_back_witness:
  "record_after (Ensure (providerOf ''zone-1'' (cannedClient (listed []) succeeded))
     (Some (exampleRecord ''a.example.com'' [''1.2.3.4''] 50)) \<lparr>ID = ''zone-1''\<rparr> ()) =
     Some (exampleRecord ''a.example.com'' [''1.2.3.4''] 120) \<and>
   record_after (Replace (providerOf ''zone-1'' (cannedClient (listed []) succeeded))
     (Some (exampleRecord ''a.example.com'' [''1.2.3.4''] 300)) \<lparr>ID = ''zone-1''\<rparr> ()) =
     Some (exampleRecord ''a.example.com'' [''1.2.3.4''] 300) \<and>
   record_after (Ensure (providerOf ''zone-1'' (cannedClient (listed []) succeeded))
     (Some (exampleRecord ''a.example.com'' [''1.2.3.4''] 50)) \<lparr>ID = ''missing''\<rparr> ()) =
     Some (exampleRecord ''a.example.com'' [''1.2.3.4''] 50) \<and>
   record_after (Delete (providerOf ''zone-1'' (cannedClient (listed []) succeeded))
     (Some (exampleRecord ''a.example.com'' [''1.2.3.4''] 50)) \<lparr>ID = ''zone-1''\<rparr> ()) =
     Some (exampleRecord ''a.example.com'' [''1.2.3.4''] 50)"
proof -
  let ?p = "providerOf ''zone-1'' (cannedClient (listed []) succeeded)"
  let ?r = "exampleRecord ''a.example.com'' [''1.2.3.4'']"
  let ?z = "\<lparr>ID = ''zone-1''\<rparr>"
  let ?m = "\<lparr>ID = ''missing''\<rparr>"
  have h1: "validateInputDNSData (Some (?r 50)) ?z = None \<and> dnsServices ?p (ID ?z) \<noteq> None \<and>
    (RecordTTL (Spec (?r 50)) = 0 \<or> (1 < RecordTTL (Spec (?r 50)) \<and> RecordTTL (Spec (?r 50)) < 120))"
    by (simp add: validateInputDNSData_def NewAggregate_def exampleRecord_def providerOf_def)
  have h2: "\<not> (RecordTTL (Spec (?r 300)) = 0 \<or>
      (1 < RecordTTL (Spec (?r 300)) \<and> RecordTTL (Spec (?r 300)) < 120))"
    by (simp add: exampleRecord_def)
  have h3: "validateInputDNSData (Some (?r 50)) ?m \<noteq> None \<or> dnsServices ?p (ID ?m) = None"
    by (simp add: providerOf_def)
  have w: "withTTL (?r 50) 120 = ?r 120"
    by (simp add: withTTL_def exampleRecord_def)
  have a: "record_after (Ensure ?p (Some (?r 50)) ?z ()) = Some (?r 120)"
    using ttl_is_written_back [where p = ?p and r = "?r 50" and zone = ?z and w = "()",
        THEN conjunct1, rule_format, OF h1, THEN conjunct1]
    by (simp only: w)
  have b: "record_after (Replace ?p (Some (?r 300)) ?z ()) = Some (?r 300)"
    by (rule ttl_is_written_back [where p = ?p and r = "?r 300" and zone = ?z and w = "()",
        THEN conjunct2, THEN conjunct1, rule_format, OF h2, THEN conjunct2])
  have c: "record_after (Ensure ?p (Some (?r 50)) ?m ()) = Some (?r 50)"
    by (rule ttl_is_written_back [where p = ?p and rc = "Some (?r 50)" and zone = ?m and w = "()",
        THEN conjunct2, THEN conjunct2, THEN conjunct1, rule_format, OF h3, THEN conjunct1])
  have d: "record_after (Delete ?p (Some (?r 50)) ?z ()) = Some (?r 50)"
    by (rule ttl_is_written_back [where p = ?p and rc = "Some (?r 50)" and zone = ?z and w = "()",
        THEN conjunct2, THEN conjunct2, THEN conjunct2])
  from a b c d show ?thesis by (intro conjI)
qed

text \<open>
  The claim as it stands promises the write-back for every record whose requested TTL
  is 0. A well-formed record with TTL 0 in a zone that is not registered comes back
  with TTL 0: the function returns before the TTL rule.
\<close>

theorem ttl_is_written_back_counterexample:
  "validateInputDNSData (Some (exampleRecord ''a.example.com'' [''1.2.3.4''] 0))
     \<lparr>ID = ''missing''\<rparr> = None \<and>
   record_after (Ensure (providerOf ''zone-1'' (cannedClient (listed []) succeeded))
     (Some (exampleRecord ''a.example.com'' [''1.2.3.4''] 0)) \<lparr>ID = ''missing''\<rparr> ()) =
     Some (exampleRecord ''a.example.com'' [''1.2.3.4''] 0) \<and>
   map_option (\<lambda>r. RecordTTL (Spec r))
     (record_after (Ensure (providerOf ''zone-1'' (cannedClient (listed []) succeeded))
       (Some (exampleRecord ''a.example.com'' [''1.2.3.4''] 0)) \<lparr>ID = ''missing''\<rparr> ())) \<noteq>
     Some 120 \<and>
   record_after (Ensure (providerOf ''zone-1'' (cannedClient (listed []) succeeded))
     (Some (exampleRecord [] [''1.2.3.4''] 0)) \<lparr>ID = ''zone-1''\<rparr> ()) =
     Some (exampleRecord [] [''1.2.3.4''] 0)"
  by (simp add: Ensure_def createOrUpdateDNSRecord_def validateInputDNSData_def
      NewAggregate_def exampleRecord_def providerOf_def fail_early_def)

section \<open>The loops\<close>

subsection \<open>Sequencing\<close>

lemma and_then_emit: "and_then (emit c r) k = emit c (and_then r k)"
  by (simp add: and_then_def emit_def Let_def split: option.splits)

lemma and_then_leave: "and_then (leave x w) k = leave x w"
  by (simp add: and_then_def leave_def)

lemma and_then_fall_through: "and_then (fall_through w) k = k w"
  by (simp add: and_then_def fall_through_def)

lemma and_then_assoc:
  "and_then (and_then r k1) k2 = and_then r (\<lambda>w. and_then (k1 w) k2)"
  by (simp add: and_then_def Let_def split: option.splits)

lemma and_then_exit:
  "exit (and_then r k) = (case exit r of Some x \<Rightarrow> Some x | None \<Rightarrow> exit (k (world r)))"
  by (simp add: and_then_def Let_def split: option.splits)

lemma and_then_left:
  "exit r = Some x \<Longrightarrow> and_then r k = r"
  by (simp add: and_then_def)

lemma and_then_calls_eq:
  "exit r = None \<Longrightarrow> calls (and_then r k) = calls r @ calls (k (world r))"
  by (simp add: and_then_def Let_def)

subsection \<open>The loops do not read the content filter they are entered with\<close>

lemma createOrUpdate_loop_content:
  "createOrUpdate_loop cl r (opt\<lparr>lContent := x\<rparr>) ts w = createOrUpdate_loop cl r opt ts w"
  by (cases ts) simp_all

lemma delete_loop_content:
  "delete_loop cl (opt\<lparr>lContent := x\<rparr>) ts w = delete_loop cl opt ts w"
  by (cases ts) simp_all

subsection \<open>A loop over a list of targets is the loop over a prefix, then over the rest\<close>

lemma createOrUpdate_loop_append:
  "createOrUpdate_loop cl r opt (ts1 @ ts2) w =
     and_then (createOrUpdate_loop cl r opt ts1 w) (createOrUpdate_loop cl r opt ts2)"
proof (induction ts1 arbitrary: opt w)
  case Nil
  show ?case by (simp add: and_then_fall_through)
next
  case (Cons t ts1)
  have IH: "\<And>w. createOrUpdate_loop cl r (opt\<lparr>lContent := Some t\<rparr>) (ts1 @ ts2) w =
     and_then (createOrUpdate_loop cl r (opt\<lparr>lContent := Some t\<rparr>) ts1 w)
       (createOrUpdate_loop cl r opt ts2)"
    by (simp add: Cons.IH createOrUpdate_loop_content [abs_def])
  show ?case
    by (simp add: IH Let_def and_then_emit and_then_leave
        split: prod.splits option.splits list.splits)
qed

lemma delete_loop_append:
  "delete_loop cl opt (ts1 @ ts2) w =
     and_then (delete_loop cl opt ts1 w) (delete_loop cl opt ts2)"
proof (induction ts1 arbitrary: opt w)
  case Nil
  show ?case by (simp add: and_then_fall_through)
next
  case (Cons t ts1)
  have IH: "\<And>w. delete_loop cl (opt\<lparr>lContent := Some t\<rparr>) (ts1 @ ts2) w =
     and_then (delete_loop cl (opt\<lparr>lContent := Some t\<rparr>) ts1 w) (delete_loop cl opt ts2)"
    by (simp add: Cons.IH delete_loop_content [abs_def])
  have IH': "delete_loop cl (opt\<lparr>lContent := Some t\<rparr>) (ts1 @ ts2) =
     (\<lambda>w. and_then (delete_loop cl (opt\<lparr>lContent := Some t\<rparr>) ts1 w) (delete_loop cl opt ts2))"
    by (rule ext) (rule IH)
  show ?case
    by (simp add: IH IH' Let_def and_then_emit and_then_leave and_then_assoc
        split: prod.splits option.splits)
qed

subsection \<open>What a loop can leave with\<close>

lemma createOrUpdate_loop_exit:
  "exit (createOrUpdate_loop cl r opt ts w) = Some x \<Longrightarrow>
   x = Panic \<or> (\<exists>msg e. x = Return (Some (Wrap msg e))) \<or> (\<exists>msg. x = Return (Some (New msg)))"
proof (induction ts arbitrary: opt w)
  case Nil
  then show ?case by simp
next
  case (Cons t ts)
  have IH: "\<And>opt w. exit (createOrUpdate_loop cl r opt ts w) = Some x \<Longrightarrow>
     x = Panic \<or> (\<exists>msg e. x = Return (Some (Wrap msg e))) \<or> (\<exists>msg. x = Return (Some (New msg)))"
    by (rule Cons.IH)
  from Cons.prems show ?case
    by (auto simp: Let_def dest: IH split: prod.splits option.splits list.splits if_splits)
qed

lemma delete_entries_exit:
  "exit (delete_entries cl es w) = Some x \<Longrightarrow>
   (\<exists>msg e. x = Return (Some (Wrap msg e))) \<or> (\<exists>msg. x = Return (Some (New msg)))"
proof (induction es arbitrary: w)
  case Nil
  then show ?case by simp
next
  case (Cons e es)
  have IH: "\<And>w. exit (delete_entries cl es w) = Some x \<Longrightarrow>
     (\<exists>msg e. x = Return (Some (Wrap msg e))) \<or> (\<exists>msg. x = Return (Some (New msg)))"
    by (rule Cons.IH)
  from Cons.prems show ?case
    by (auto simp: Let_def dest: IH split: prod.splits option.splits if_splits)
qed

lemma delete_loop_exit:
  "exit (delete_loop cl opt ts w) = Some x \<Longrightarrow>
   (\<exists>msg e. x = Return (Some (Wrap msg e))) \<or> (\<exists>msg. x = Return (Some (New msg)))"
proof (induction ts arbitrary: opt w)
  case Nil
  then show ?case by simp
next
  case (Cons t ts)
  have IH: "\<And>opt w. exit (delete_loop cl opt ts w) = Some x \<Longrightarrow>
     (\<exists>msg e. x = Return (Some (Wrap msg e))) \<or> (\<exists>msg. x = Return (Some (New msg)))"
    by (rule Cons.IH)
  from Cons.prems show ?case
    by (auto simp: Let_def and_then_exit dest: IH delete_entries_exit
        split: prod.splits option.splits if_splits)
qed

subsection \<open>Which targets the calls of a loop are about\<close>

lemma contents_simps [simp]:
  "contents [] = []" "contents (c # tr) = content_of c @ contents tr"
  "contents (xs @ ys) = contents xs @ contents ys"
  by (simp_all add: contents_def)

lemma createOrUpdate_loop_contents:
  "x \<in> set (contents (calls (createOrUpdate_loop cl r opt ts w))) \<Longrightarrow> x \<in> Some ` set ts"
proof (induction ts arbitrary: opt w)
  case Nil
  then show ?case by simp
next
  case (Cons t ts)
  have IH: "\<And>opt w. x \<in> set (contents (calls (createOrUpdate_loop cl r opt ts w))) \<Longrightarrow>
     x \<in> Some ` set ts"
    by (rule Cons.IH)
  from Cons.prems show ?case
    by (auto simp: Let_def NewCreateDnsRecordOptions_def
        NewUpdateDnsRecordOptions_def dest!: IH
        split: prod.splits option.splits list.splits if_splits)
qed

lemma delete_entries_contents: "contents (calls (delete_entries cl es w)) = []"
proof (induction es arbitrary: w)
  case Nil
  show ?case by simp
next
  case (Cons e es)
  show ?case
    by (simp add: Let_def Cons.IH split: prod.splits option.splits)
qed

lemma and_then_delete_entries_contents:
  "x \<in> set (contents (calls (and_then (delete_entries cl es w1) k))) \<Longrightarrow>
   x \<in> set (contents (calls (k (world (delete_entries cl es w1)))))"
  using delete_entries_contents [of cl es w1]
  by (cases "exit (delete_entries cl es w1)")
    (simp_all add: and_then_calls_eq and_then_left)

lemma delete_loop_contents:
  "x \<in> set (contents (calls (delete_loop cl opt ts w))) \<Longrightarrow> x \<in> Some ` set ts"
proof (induction ts arbitrary: opt w)
  case Nil
  then show ?case by simp
next
  case (Cons t ts)
  have IH: "\<And>opt w. x \<in> set (contents (calls (delete_loop cl opt ts w))) \<Longrightarrow>
     x \<in> Some ` set ts"
    by (rule Cons.IH)
  from Cons.prems show ?case
    by (auto simp: Let_def dest!: and_then_delete_entries_contents IH
        split: prod.splits option.splits if_splits)
qed

subsection \<open>The first failing target ends the operation\<close>

text \<open>From here on the loops are unfolded one step only where a proof asks for it.\<close>

declare createOrUpdate_loop.simps(2) [simp del]
declare delete_loop.simps(2) [simp del]
declare delete_entries.simps(2) [simp del]

lemma and_then_passes:
  "exit r = None \<Longrightarrow> and_then r k = (k (world r))\<lparr>calls := calls r @ calls (k (world r))\<rparr>"
  by (simp add: and_then_def Let_def)

lemma createOrUpdate_loop_stops:
  assumes "exit (createOrUpdate_loop cl r opt before w) = None"
    and "exit (createOrUpdate_loop cl r opt [t] (world (createOrUpdate_loop cl r opt before w))) = Some x"
  shows "createOrUpdate_loop cl r opt (before @ t # after) w =
     (createOrUpdate_loop cl r opt [t] (world (createOrUpdate_loop cl r opt before w)))
       \<lparr>calls := calls (createOrUpdate_loop cl r opt before w) @
          calls (createOrUpdate_loop cl r opt [t] (world (createOrUpdate_loop cl r opt before w)))\<rparr>"
proof -
  have "createOrUpdate_loop cl r opt ([t] @ after) =
      (\<lambda>w1. and_then (createOrUpdate_loop cl r opt [t] w1) (createOrUpdate_loop cl r opt after))"
    by (rule ext) (rule createOrUpdate_loop_append)
  then have "createOrUpdate_loop cl r opt (before @ [t] @ after) w =
      and_then (createOrUpdate_loop cl r opt before w)
        (\<lambda>w1. and_then (createOrUpdate_loop cl r opt [t] w1) (createOrUpdate_loop cl r opt after))"
    by (simp only: createOrUpdate_loop_append [of _ _ _ before])
  also have "\<dots> = (and_then (createOrUpdate_loop cl r opt [t] (world (createOrUpdate_loop cl r opt before w)))
         (createOrUpdate_loop cl r opt after))
       \<lparr>calls := calls (createOrUpdate_loop cl r opt before w) @
          calls (and_then (createOrUpdate_loop cl r opt [t] (world (createOrUpdate_loop cl r opt before w)))
            (createOrUpdate_loop cl r opt after))\<rparr>"
    by (rule and_then_passes [OF assms(1)])
  finally show ?thesis
    by (simp add: and_then_left [OF assms(2)])
qed

lemma delete_loop_stops:
  assumes "exit (delete_loop cl opt before w) = None"
    and "exit (delete_loop cl opt [t] (world (delete_loop cl opt before w))) = Some x"
  shows "delete_loop cl opt (before @ t # after) w =
     (delete_loop cl opt [t] (world (delete_loop cl opt before w)))
       \<lparr>calls := calls (delete_loop cl opt before w) @
          calls (delete_loop cl opt [t] (world (delete_loop cl opt before w)))\<rparr>"
proof -
  have "delete_loop cl opt ([t] @ after) =
      (\<lambda>w1. and_then (delete_loop cl opt [t] w1) (delete_loop cl opt after))"
    by (rule ext) (rule delete_loop_append)
  then have "delete_loop cl opt (before @ [t] @ after) w =
      and_then (delete_loop cl opt before w)
        (\<lambda>w1. and_then (delete_loop cl opt [t] w1) (delete_loop cl opt after))"
    by (simp only: delete_loop_append [of _ _ before])
  also have "\<dots> = (and_then (delete_loop cl opt [t] (world (delete_loop cl opt before w)))
         (delete_loop cl opt after))
       \<lparr>calls := calls (delete_loop cl opt before w) @
          calls (and_then (delete_loop cl opt [t] (world (delete_loop cl opt before w)))
            (delete_loop cl opt after))\<rparr>"
    by (rule and_then_passes [OF assms(1)])
  finally show ?thesis
    by (simp add: and_then_left [OF assms(2)])
qed

lemma createOrUpdate_loop_not_aggregate:
  "exit (createOrUpdate_loop cl r opt ts w) = Some (Return (Some e)) \<Longrightarrow> e \<noteq> Aggregate es"
  by (auto dest: createOrUpdate_loop_exit)

lemma delete_loop_not_aggregate:
  "exit (delete_loop cl opt ts w) = Some (Return (Some e)) \<Longrightarrow> e \<noteq> Aggregate es"
  by (auto dest: delete_loop_exit)

lemma createOrUpdate_loop_no_error_iff:
  "(case exit (createOrUpdate_loop cl r opt ts w) of None \<Rightarrow> Return None | Some x \<Rightarrow> x) = Return None
     \<longleftrightarrow> exit (createOrUpdate_loop cl r opt ts w) = None"
  by (auto dest: createOrUpdate_loop_exit split: option.splits)

lemma delete_loop_no_error_iff:
  "(case exit (delete_loop cl opt ts w) of None \<Rightarrow> Return None | Some x \<Rightarrow> x) = Return None
     \<longleftrightarrow> exit (delete_loop cl opt ts w) = None"
  by (auto dest: delete_loop_exit split: option.splits)

lemma upsert_stops_at:
  assumes v: "validateInputDNSData (Some r) zone = None"
    and cl: "dnsServices p (ID zone) = Some cl"
    and ts: "Targets (Spec r) = before @ t # after"
    and r': "r' = withTTL r (normalizeTTL (RecordTTL (Spec r)))"
    and opt: "opt = upsertListOptions r"
    and pass: "exit (createOrUpdate_loop cl r' opt before w) = None"
    and w1: "w1 = world (createOrUpdate_loop cl r' opt before w)"
    and stop: "exit (createOrUpdate_loop cl r' opt [t] w1) = Some x"
  shows "returned (createOrUpdateDNSRecord p (Some r) zone w) = x"
    and "issued (createOrUpdateDNSRecord p (Some r) zone w) =
       calls (createOrUpdate_loop cl r' opt before w) @ calls (createOrUpdate_loop cl r' opt [t] w1)"
    and "remote_after (createOrUpdateDNSRecord p (Some r) zone w) =
       world (createOrUpdate_loop cl r' opt [t] w1)"
    and "set (contents (issued (createOrUpdateDNSRecord p (Some r) zone w))) \<subseteq>
       Some ` set (before @ [t])"
    and "x = Return (Some e) \<Longrightarrow> e \<noteq> Aggregate es"
proof -
  note run = createOrUpdate_run [OF v cl, of w, folded r' opt, unfolded ts]
  note stops = createOrUpdate_loop_stops [OF pass stop [unfolded w1], of after, folded w1]
  show "returned (createOrUpdateDNSRecord p (Some r) zone w) = x"
    by (simp add: run stops stop)
  show i: "issued (createOrUpdateDNSRecord p (Some r) zone w) =
       calls (createOrUpdate_loop cl r' opt before w) @ calls (createOrUpdate_loop cl r' opt [t] w1)"
    by (simp add: run stops)
  show "remote_after (createOrUpdateDNSRecord p (Some r) zone w) =
       world (createOrUpdate_loop cl r' opt [t] w1)"
    by (simp add: run stops)
  show "set (contents (issued (createOrUpdateDNSRecord p (Some r) zone w))) \<subseteq>
       Some ` set (before @ [t])"
    unfolding i
    using createOrUpdate_loop_contents [of _ cl r' opt before w]
      createOrUpdate_loop_contents [of _ cl r' opt "[t]" w1]
    by auto
  show "x = Return (Some e) \<Longrightarrow> e \<noteq> Aggregate es"
    using stop by (auto dest: createOrUpdate_loop_not_aggregate)
qed

lemma delete_stops_at:
  assumes v: "validateInputDNSData (Some r) zone = None"
    and cl: "dnsServices p (ID zone) = Some cl"
    and ts: "Targets (Spec r) = before @ t # after"
    and opt: "opt = deleteListOptions r"
    and pass: "exit (delete_loop cl opt before w) = None"
    and w1: "w1 = world (delete_loop cl opt before w)"
    and stop: "exit (delete_loop cl opt [t] w1) = Some x"
  shows "returned (Delete p (Some r) zone w) = x"
    and "issued (Delete p (Some r) zone w) =
       calls (delete_loop cl opt before w) @ calls (delete_loop cl opt [t] w1)"
    and "remote_after (Delete p (Some r) zone w) = world (delete_loop cl opt [t] w1)"
    and "set (contents (issued (Delete p (Some r) zone w))) \<subseteq> Some ` set (before @ [t])"
    and "x = Return (Some e) \<Longrightarrow> e \<noteq> Aggregate es"
proof -
  note run = Delete_run [OF v cl, of w, folded opt, unfolded ts]
  note stops = delete_loop_stops [OF pass stop [unfolded w1], of after, folded w1]
  show "returned (Delete p (Some r) zone w) = x"
    by (simp add: run stops stop)
  show i: "issued (Delete p (Some r) zone w) =
       calls (delete_loop cl opt before w) @ calls (delete_loop cl opt [t] w1)"
    by (simp add: run stops)
  show "remote_after (Delete p (Some r) zone w) = world (delete_loop cl opt [t] w1)"
    by (simp add: run stops)
  show "set (contents (issued (Delete p (Some r) zone w))) \<subseteq> Some ` set (before @ [t])"
    unfolding i
    using delete_loop_contents [of _ cl opt before w] delete_loop_contents [of _ cl opt "[t]" w1]
    by auto
  show "x = Return (Some e) \<Longrightarrow> e \<noteq> Aggregate es"
    using stop by (auto dest: delete_loop_not_aggregate)
qed

subsection \<open>One target, by what the remote answers\<close>

text \<open>
  The step of the upsert loop for one target, read off the replies: a list error with
  a response other than 404, a list reply without a result, a create error and an
  update error each leave the function with that error.
\<close>

lemma upsert_list_fails:
  assumes "ListAllDnsRecords cl (opt\<lparr>lContent := Some t\<rparr>) w = ((result, Some resp, Some e), w2)"
    and "StatusCode resp \<noteq> 404"
  shows "createOrUpdate_loop cl r opt (t # ts) w =
     emit (ListCall (opt\<lparr>lContent := Some t\<rparr>))
       (leave (Return (Some
          (Wrap ''createOrUpdateDNSRecord: failed to list the dns record: '' e))) w2)"
  using assms
  by (simp add: createOrUpdate_loop.simps(2) Let_def otherThanNotFound_def StatusNotFound_def)

lemma upsert_invalid_result:
  assumes "ListAllDnsRecords cl (opt\<lparr>lContent := Some t\<rparr>) w = ((result, response, None), w2)"
    and "result = None \<or> (\<exists>res. result = Some res \<and> Result res = None)"
  shows "createOrUpdate_loop cl r opt (t # ts) w =
     emit (ListCall (opt\<lparr>lContent := Some t\<rparr>))
       (leave (Return (Some (New ''createOrUpdateDNSRecord: invalid result''))) w2)"
  using assms
  by (auto simp: createOrUpdate_loop.simps(2) Let_def)

lemma upsert_create_fails:
  assumes "ListAllDnsRecords cl (opt\<lparr>lContent := Some t\<rparr>) w = ((Some res, response, None), w2)"
    and "Result res = Some []"
    and "CreateDnsRecord cl
       \<lparr>cName = Some (DNSName (Spec r)), cType = Some (RecordType (Spec r)),
        cContent = Some t, cTTL = Some (RecordTTL (Spec r))\<rparr> w2 = ((response', Some e), w3)"
  shows "createOrUpdate_loop cl r opt (t # ts) w =
     emit (ListCall (opt\<lparr>lContent := Some t\<rparr>))
       (emit (CreateCall \<lparr>cName = Some (DNSName (Spec r)), cType = Some (RecordType (Spec r)),
                          cContent = Some t, cTTL = Some (RecordTTL (Spec r))\<rparr>)
          (leave (Return (Some
             (Wrap ''createOrUpdateDNSRecord: failed to create the dns record: '' e))) w3))"
  using assms
  by (simp add: createOrUpdate_loop.simps(2) Let_def NewCreateDnsRecordOptions_def)

lemma upsert_update_fails:
  assumes "ListAllDnsRecords cl (opt\<lparr>lContent := Some t\<rparr>) w = ((Some res, response, None), w2)"
    and "Result res = Some (first # others)" and "rID first = Some i"
    and "UpdateDnsRecord cl
       \<lparr>uID = i, uName = Some (DNSName (Spec r)), uType = Some (RecordType (Spec r)),
        uContent = Some t, uTTL = Some (RecordTTL (Spec r))\<rparr> w2 = ((response', Some e), w3)"
  shows "createOrUpdate_loop cl r opt (t # ts) w =
     emit (ListCall (opt\<lparr>lContent := Some t\<rparr>))
       (emit (UpdateCall \<lparr>uID = i, uName = Some (DNSName (Spec r)),
                          uType = Some (RecordType (Spec r)),
                          uContent = Some t, uTTL = Some (RecordTTL (Spec r))\<rparr>)
          (leave (Return (Some
             (Wrap ''createOrUpdateDNSRecord: failed to update the dns record: '' e))) w3))"
  using assms
  by (simp add: createOrUpdate_loop.simps(2) Let_def NewUpdateDnsRecordOptions_def)

text \<open>The same for the delete loop and for its inner loop over the listed entries.\<close>

lemma delete_list_fails:
  assumes "ListAllDnsRecords cl (opt\<lparr>lContent := Some t\<rparr>) w = ((result, Some resp, Some e), w2)"
    and "StatusCode resp \<noteq> 404"
  shows "delete_loop cl opt (t # ts) w =
     emit (ListCall (opt\<lparr>lContent := Some t\<rparr>))
       (leave (Return (Some (Wrap ''delete: failed to list the dns record: '' e))) w2)"
  using assms
  by (simp add: delete_loop.simps(2) Let_def otherThanNotFound_def StatusNotFound_def)

lemma delete_invalid_result:
  assumes "ListAllDnsRecords cl (opt\<lparr>lContent := Some t\<rparr>) w = ((result, response, None), w2)"
    and "result = None \<or> (\<exists>res. result = Some res \<and> Result res = None)"
  shows "delete_loop cl opt (t # ts) w =
     emit (ListCall (opt\<lparr>lContent := Some t\<rparr>))
       (leave (Return (Some (New ''delete: invalid result''))) w2)"
  using assms
  by (auto simp: delete_loop.simps(2) Let_def)

lemma delete_entries_append:
  "delete_entries cl (pre @ post) w =
     and_then (delete_entries cl pre w) (delete_entries cl post)"
proof (induction pre arbitrary: w)
  case Nil
  show ?case by (simp add: and_then_fall_through)
next
  case (Cons d pre)
  show ?case
    by (simp add: delete_entries.simps(2) Let_def Cons.IH and_then_emit and_then_leave
        split: prod.splits option.splits)
qed

lemma delete_entries_nil_id:
  assumes "exit (delete_entries cl pre w) = None" and "rID d = None"
  shows "delete_entries cl (pre @ d # post) w =
     (leave (Return (Some (New ''delete: record id is nil''))) (world (delete_entries cl pre w)))
       \<lparr>calls := calls (delete_entries cl pre w)\<rparr>"
  using assms
  by (simp add: delete_entries_append and_then_passes delete_entries.simps(2))

lemma delete_entries_delete_fails:
  assumes "exit (delete_entries cl pre w) = None" and "rID d = Some i"
    and "DeleteDnsRecord cl (NewDeleteDnsRecordOptions i) (world (delete_entries cl pre w)) =
       ((Some resp, Some e), w3)"
    and "StatusCode resp \<noteq> 404"
  shows "delete_entries cl (pre @ d # post) w =
     (leave (Return (Some (Wrap ''delete: failed to delete the dns record: '' e))) w3)
       \<lparr>calls := calls (delete_entries cl pre w) @ [DeleteCall (NewDeleteDnsRecordOptions i)]\<rparr>"
  using assms
  by (simp add: delete_entries_append and_then_passes delete_entries.simps(2) Let_def
      otherThanNotFound_def StatusNotFound_def emit_def)

lemma delete_entries_leave:
  assumes "ListAllDnsRecords cl (opt\<lparr>lContent := Some t\<rparr>) w = ((Some res, response, None), w2)"
    and "Result res = Some es" and "exit (delete_entries cl es w2) = Some x"
  shows "delete_loop cl opt (t # ts) w =
     emit (ListCall (opt\<lparr>lContent := Some t\<rparr>)) (delete_entries cl es w2)"
  using assms
  by (simp add: delete_loop.simps(2) Let_def and_then_left)

subsection \<open>The failing step, in the whole operation\<close>

text \<open>
  In each lemma the targets before \<open>t\<close> have gone through (\<open>prior\<close>), and the remote
  answers the step for \<open>t\<close> as the hypotheses say.
\<close>

lemma upsert_op_list_fails:
  fixes r r' :: DNSRecord and p :: "'w Provider" and w :: 'w and cl before t zone prior q run
  defines "r' \<equiv> withTTL r (normalizeTTL (RecordTTL (Spec r)))"
    and "prior \<equiv> createOrUpdate_loop cl r' (upsertListOptions r) before w"
    and "q \<equiv> (upsertListOptions r)\<lparr>lContent := Some t\<rparr>"
    and "run \<equiv> createOrUpdateDNSRecord p (Some r) zone w"
  assumes v: "validateInputDNSData (Some r) zone = None"
    and cl: "dnsServices p (ID zone) = Some cl"
    and ts: "Targets (Spec r) = before @ t # after"
    and pass: "exit prior = None"
    and a1: "ListAllDnsRecords cl q (world prior) = ((result, Some resp, Some e), w2)"
    and a2: "StatusCode resp \<noteq> 404"
  shows "returned run = Return (Some
           (Wrap ''createOrUpdateDNSRecord: failed to list the dns record: '' e)) \<and>
         issued run = calls prior @ [ListCall q] \<and> remote_after run = w2"
proof -
  note defs = prior_def q_def run_def r'_def
  note step = upsert_list_fails [OF a1 [unfolded defs] a2, of "withTTL r (normalizeTTL (RecordTTL (Spec r)))" "[]"]
  then obtain x where
    x: "exit (createOrUpdate_loop cl (withTTL r (normalizeTTL (RecordTTL (Spec r)))) (upsertListOptions r) [t]
      (world (createOrUpdate_loop cl (withTTL r (normalizeTTL (RecordTTL (Spec r)))) (upsertListOptions r) before w))) = Some x"
    by simp
  from upsert_stops_at(1-3) [OF v cl ts refl refl pass [unfolded defs] refl x] x
  show ?thesis
    unfolding defs by (simp add: step)
qed

lemma upsert_op_invalid_result:
  fixes r r' :: DNSRecord and p :: "'w Provider" and w :: 'w and cl before t zone prior q run
  defines "r' \<equiv> withTTL r (normalizeTTL (RecordTTL (Spec r)))"
    and "prior \<equiv> createOrUpdate_loop cl r' (upsertListOptions r) before w"
    and "q \<equiv> (upsertListOptions r)\<lparr>lContent := Some t\<rparr>"
    and "run \<equiv> createOrUpdateDNSRecord p (Some r) zone w"
  assumes v: "validateInputDNSData (Some r) zone = None"
    and cl: "dnsServices p (ID zone) = Some cl"
    and ts: "Targets (Spec r) = before @ t # after"
    and pass: "exit prior = None"
    and a1: "ListAllDnsRecords cl q (world prior) = ((result, response, None), w2)"
    and a2: "result = None \<or> (\<exists>res. result = Some res \<and> Result res = None)"
  shows "returned run = Return (Some (New ''createOrUpdateDNSRecord: invalid result'')) \<and>
         issued run = calls prior @ [ListCall q] \<and> remote_after run = w2"
proof -
  note defs = prior_def q_def run_def r'_def
  note step = upsert_invalid_result [OF a1 [unfolded defs] a2, of "withTTL r (normalizeTTL (RecordTTL (Spec r)))" "[]"]
  then obtain x where
    x: "exit (createOrUpdate_loop cl (withTTL r (normalizeTTL (RecordTTL (Spec r)))) (upsertListOptions r) [t]
      (world (createOrUpdate_loop cl (withTTL r (normalizeTTL (RecordTTL (Spec r)))) (upsertListOptions r) before w))) = Some x"
    by simp
  from upsert_stops_at(1-3) [OF v cl ts refl refl pass [unfolded defs] refl x] x
  show ?thesis
    unfolding defs by (simp add: step)
qed

lemma upsert_op_create_fails:
  fixes r r' :: DNSRecord and p :: "'w Provider" and w :: 'w and cl before t zone prior q run
  defines "r' \<equiv> withTTL r (normalizeTTL (RecordTTL (Spec r)))"
    and "prior \<equiv> createOrUpdate_loop cl r' (upsertListOptions r) before w"
    and "q \<equiv> (upsertListOptions r)\<lparr>lContent := Some t\<rparr>"
    and "run \<equiv> createOrUpdateDNSRecord p (Some r) zone w"
  assumes v: "validateInputDNSData (Some r) zone = None"
    and cl: "dnsServices p (ID zone) = Some cl"
    and ts: "Targets (Spec r) = before @ t # after"
    and pass: "exit prior = None"
    and a1: "ListAllDnsRecords cl q (world prior) = ((Some res, response, None), w2)"
    and a2: "Result res = Some []"
    and a3: "CreateDnsRecord cl
       \<lparr>cName = Some (DNSName (Spec r)), cType = Some (RecordType (Spec r)),
        cContent = Some t, cTTL = Some (normalizeTTL (RecordTTL (Spec r)))\<rparr> w2 =
       ((response', Some e), w3)"
  shows "returned run = Return (Some
           (Wrap ''createOrUpdateDNSRecord: failed to create the dns record: '' e)) \<and>
         issued run = calls prior @
           [ListCall q,
            CreateCall \<lparr>cName = Some (DNSName (Spec r)), cType = Some (RecordType (Spec r)),
              cContent = Some t, cTTL = Some (normalizeTTL (RecordTTL (Spec r)))\<rparr>] \<and>
         remote_after run = w3"
proof -
  note defs = prior_def q_def run_def r'_def
  note step = upsert_create_fails [OF a1 [unfolded defs] a2,
      of "withTTL r (normalizeTTL (RecordTTL (Spec r)))" response' e w3 "[]", unfolded withTTL_simps, OF a3]
  then obtain x where
    x: "exit (createOrUpdate_loop cl (withTTL r (normalizeTTL (RecordTTL (Spec r)))) (upsertListOptions r) [t]
      (world (createOrUpdate_loop cl (withTTL r (normalizeTTL (RecordTTL (Spec r)))) (upsertListOptions r) before w))) = Some x"
    by simp
  from upsert_stops_at(1-3) [OF v cl ts refl refl pass [unfolded defs] refl x] x
  show ?thesis
    unfolding defs by (simp add: step)
qed

lemma upsert_op_update_fails:
  fixes r r' :: DNSRecord and p :: "'w Provider" and w :: 'w and cl before t zone prior q run
  defines "r' \<equiv> withTTL r (normalizeTTL (RecordTTL (Spec r)))"
    and "prior \<equiv> createOrUpdate_loop cl r' (upsertListOptions r) before w"
    and "q \<equiv> (upsertListOptions r)\<lparr>lContent := Some t\<rparr>"
    and "run \<equiv> createOrUpdateDNSRecord p (Some r) zone w"
  assumes v: "validateInputDNSData (Some r) zone = None"
    and cl: "dnsServices p (ID zone) = Some cl"
    and ts: "Targets (Spec r) = before @ t # after"
    and pass: "exit prior = None"
    and a1: "ListAllDnsRecords cl q (world prior) = ((Some res, response, None), w2)"
    and a2: "Result res = Some (first # others)" and a3: "rID first = Some i"
    and a4: "UpdateDnsRecord cl
       \<lparr>uID = i, uName = Some (DNSName (Spec r)), uType = Some (RecordType (Spec r)),
        uContent = Some t, uTTL = Some (normalizeTTL (RecordTTL (Spec r)))\<rparr> w2 =
       ((response', Some e), w3)"
  shows "returned run = Return (Some
           (Wrap ''createOrUpdateDNSRecord: failed to update the dns record: '' e)) \<and>
         issued run = calls prior @
           [ListCall q,
            UpdateCall \<lparr>uID = i, uName = Some (DNSName (Spec r)),
              uType = Some (RecordType (Spec r)),
              uContent = Some t, uTTL = Some (normalizeTTL (RecordTTL (Spec r)))\<rparr>] \<and>
         remote_after run = w3"
proof -
  note defs = prior_def q_def run_def r'_def
  note step = upsert_update_fails [OF a1 [unfolded defs] a2 a3,
      of "withTTL r (normalizeTTL (RecordTTL (Spec r)))" response' e w3 "[]", unfolded withTTL_simps, OF a4]
  then obtain x where
    x: "exit (createOrUpdate_loop cl (withTTL r (normalizeTTL (RecordTTL (Spec r)))) (upsertListOptions r) [t]
      (world (createOrUpdate_loop cl (withTTL r (normalizeTTL (RecordTTL (Spec r)))) (upsertListOptions r) before w))) = Some x"
    by simp
  from upsert_stops_at(1-3) [OF v cl ts refl refl pass [unfolded defs] refl x] x
  show ?thesis
    unfolding defs by (simp add: step)
qed

lemma delete_op_list_fails:
  fixes r :: DNSRecord and p :: "'w Provider" and w :: 'w and cl before t zone prior q run
  defines "prior \<equiv> delete_loop cl (deleteListOptions r) before w"
    and "q \<equiv> (deleteListOptions r)\<lparr>lContent := Some t\<rparr>"
    and "run \<equiv> Delete p (Some r) zone w"
  assumes v: "validateInputDNSData (Some r) zone = None"
    and cl: "dnsServices p (ID zone) = Some cl"
    and ts: "Targets (Spec r) = before @ t # after"
    and pass: "exit prior = None"
    and a1: "ListAllDnsRecords cl q (world prior) = ((result, Some resp, Some e), w2)"
    and a2: "StatusCode resp \<noteq> 404"
  shows "returned run = Return (Some (Wrap ''delete: failed to list the dns record: '' e)) \<and>
         issued run = calls prior @ [ListCall q] \<and> remote_after run = w2"
proof -
  note defs = prior_def q_def run_def
  note step = delete_list_fails [OF a1 [unfolded defs] a2, of "[]"]
  then obtain x where
    x: "exit (delete_loop cl (deleteListOptions r) [t]
      (world (delete_loop cl (deleteListOptions r) before w))) = Some x"
    by simp
  from delete_stops_at(1-3) [OF v cl ts refl pass [unfolded defs] refl x] x
  show ?thesis
    unfolding defs by (simp add: step)
qed

lemma delete_op_invalid_result:
  fixes r :: DNSRecord and p :: "'w Provider" and w :: 'w and cl before t zone prior q run
  defines "prior \<equiv> delete_loop cl (deleteListOptions r) before w"
    and "q \<equiv> (deleteListOptions r)\<lparr>lContent := Some t\<rparr>"
    and "run \<equiv> Delete p (Some r) zone w"
  assumes v: "validateInputDNSData (Some r) zone = None"
    and cl: "dnsServices p (ID zone) = Some cl"
    and ts: "Targets (Spec r) = before @ t # after"
    and pass: "exit prior = None"
    and a1: "ListAllDnsRecords cl q (world prior) = ((result, response, None), w2)"
    and a2: "result = None \<or> (\<exists>res. result = Some res \<and> Result res = None)"
  shows "returned run = Return (Some (New ''delete: invalid result'')) \<and>
         issued run = calls prior @ [ListCall q] \<and> remote_after run = w2"
proof -
  note defs = prior_def q_def run_def
  note step = delete_invalid_result [OF a1 [unfolded defs] a2, of "[]"]
  then obtain x where
    x: "exit (delete_loop cl (deleteListOptions r) [t]
      (world (delete_loop cl (deleteListOptions r) before w))) = Some x"
    by simp
  from delete_stops_at(1-3) [OF v cl ts refl pass [unfolded defs] refl x] x
  show ?thesis
    unfolding defs by (simp add: step)
qed

lemma delete_op_nil_id:
  fixes r :: DNSRecord and p :: "'w Provider" and w :: 'w and cl before t zone prior q run
  defines "prior \<equiv> delete_loop cl (deleteListOptions r) before w"
    and "q \<equiv> (deleteListOptions r)\<lparr>lContent := Some t\<rparr>"
    and "run \<equiv> Delete p (Some r) zone w"
  assumes v: "validateInputDNSData (Some r) zone = None"
    and cl: "dnsServices p (ID zone) = Some cl"
    and ts: "Targets (Spec r) = before @ t # after"
    and pass: "exit prior = None"
    and a1: "ListAllDnsRecords cl q (world prior) = ((Some res, response, None), w2)"
    and a2: "Result res = Some (pre @ d # post)"
    and a3: "exit (delete_entries cl pre w2) = None" and a4: "rID d = None"
  shows "returned run = Return (Some (New ''delete: record id is nil'')) \<and>
         issued run = calls prior @ ListCall q # calls (delete_entries cl pre w2) \<and>
         remote_after run = world (delete_entries cl pre w2)"
proof -
  note defs = prior_def q_def run_def
  note inner = delete_entries_nil_id [OF a3 a4, of post]
  then have "exit (delete_entries cl (pre @ d # post) w2) \<noteq> None"
    by simp
  then obtain y where "exit (delete_entries cl (pre @ d # post) w2) = Some y"
    by blast
  note step = delete_entries_leave [OF a1 [unfolded defs] a2 this, of "[]"]
  then obtain x where
    x: "exit (delete_loop cl (deleteListOptions r) [t]
      (world (delete_loop cl (deleteListOptions r) before w))) = Some x"
    by (simp add: inner)
  from delete_stops_at(1-3) [OF v cl ts refl pass [unfolded defs] refl x] x
  show ?thesis
    unfolding defs by (simp add: step inner)
qed

lemma delete_op_delete_fails:
  fixes r :: DNSRecord and p :: "'w Provider" and w :: 'w and cl before t zone prior q run
  defines "prior \<equiv> delete_loop cl (deleteListOptions r) before w"
    and "q \<equiv> (deleteListOptions r)\<lparr>lContent := Some t\<rparr>"
    and "run \<equiv> Delete p (Some r) zone w"
  assumes v: "validateInputDNSData (Some r) zone = None"
    and cl: "dnsServices p (ID zone) = Some cl"
    and ts: "Targets (Spec r) = before @ t # after"
    and pass: "exit prior = None"
    and a1: "ListAllDnsRecords cl q (world prior) = ((Some res, response, None), w2)"
    and a2: "Result res = Some (pre @ d # post)"
    and a3: "exit (delete_entries cl pre w2) = None" and a4: "rID d = Some i"
    and a5: "DeleteDnsRecord cl (NewDeleteDnsRecordOptions i) (world (delete_entries cl pre w2)) =
       ((Some resp, Some e), w3)"
    and a6: "StatusCode resp \<noteq> 404"
  shows "returned run = Return (Some (Wrap ''delete: failed to delete the dns record: '' e)) \<and>
         issued run = calls prior @ ListCall q # calls (delete_entries cl pre w2) @
           [DeleteCall (NewDeleteDnsRecordOptions i)] \<and>
         remote_after run = w3"
proof -
  note defs = prior_def q_def run_def
  note inner = delete_entries_delete_fails [OF a3 a4 a5 a6, of post]
  then have "exit (delete_entries cl (pre @ d # post) w2) \<noteq> None"
    by simp
  then obtain y where "exit (delete_entries cl (pre @ d # post) w2) = Some y"
    by blast
  note step = delete_entries_leave [OF a1 [unfolded defs] a2 this, of "[]"]
  then obtain x where
    x: "exit (delete_loop cl (deleteListOptions r) [t]
      (world (delete_loop cl (deleteListOptions r) before w))) = Some x"
    by (simp add: inner)
  from delete_stops_at(1-3) [OF v cl ts refl pass [unfolded defs] refl x] x
  show ?thesis
    unfolding defs by (simp add: step inner)
qed

lemmas failing_step =
  upsert_op_list_fails [THEN conjunct1] upsert_op_list_fails [THEN conjunct2, THEN conjunct1]
  upsert_op_list_fails [THEN conjunct2, THEN conjunct2]
  upsert_op_invalid_result [THEN conjunct1] upsert_op_invalid_result [THEN conjunct2, THEN conjunct1]
  upsert_op_invalid_result [THEN conjunct2, THEN conjunct2]
  upsert_op_create_fails [THEN conjunct1] upsert_op_create_fails [THEN conjunct2, THEN conjunct1]
  upsert_op_create_fails [THEN conjunct2, THEN conjunct2]
  upsert_op_update_fails [THEN conjunct1] upsert_op_update_fails [THEN conjunct2, THEN conjunct1]
  upsert_op_update_fails [THEN conjunct2, THEN conjunct2]
  delete_op_list_fails [THEN conjunct1] delete_op_list_fails [THEN conjunct2, THEN conjunct1]
  delete_op_list_fails [THEN conjunct2, THEN conjunct2]
  delete_op_invalid_result [THEN conjunct1] delete_op_invalid_result [THEN conjunct2, THEN conjunct1]
  delete_op_invalid_result [THEN conjunct2, THEN conjunct2]
  delete_op_nil_id [THEN conjunct1] delete_op_nil_id [THEN conjunct2, THEN conjunct1]
  delete_op_nil_id [THEN conjunct2, THEN conjunct2]
  delete_op_delete_fails [THEN conjunct1] delete_op_delete_fails [THEN conjunct2, THEN conjunct1]
  delete_op_delete_fails [THEN conjunct2, THEN conjunct2]



lemma run_createFailsFor:
  "createOrUpdate_loop (createFailsFor bad) r opt [t] () =
     \<lparr>exit = (if t = bad
               then Some (Return (Some
                 (Wrap ''createOrUpdateDNSRecord: failed to create the dns record: ''
                    (New ''remote failure''))))
               else None),
      world = (),
      calls = [ListCall (opt\<lparr>lContent := Some t\<rparr>),
               CreateCall \<lparr>cName = Some (DNSName (Spec r)), cType = Some (RecordType (Spec r)),
                           cContent = Some t, cTTL = Some (RecordTTL (Spec r))\<rparr>]\<rparr>"
  by (simp add: createOrUpdate_loop.simps(2) createFailsFor_def listed_def succeeded_def
      failed_def Let_def NewCreateDnsRecordOptions_def emit_def leave_def fall_through_def)

lemma run_listFailed:
  "delete_loop (cannedClient (listFailed 500) rp) opt (t # ts) () =
     \<lparr>exit = Some (Return (Some
        (Wrap ''delete: failed to list the dns record: '' (New ''remote failure'')))),
      world = (),
      calls = [ListCall (opt\<lparr>lContent := Some t\<rparr>)]\<rparr>"
  by (simp add: delete_loop.simps(2) cannedClient_def listFailed_def failed_def Let_def
      otherThanNotFound_def StatusNotFound_def emit_def leave_def)




subsection \<open>Not found\<close>

lemma listNotFound_cases:
  assumes "listNotFound lr"
  obtains result response e where "lr = (result, response, Some e)" "\<not> otherThanNotFound response"
  using assms
  by (cases lr) (auto simp: listNotFound_def notFound_def otherThanNotFound_def
      split: option.splits)

lemma notFound_cases:
  assumes "notFound rp"
  obtains response e where "rp = (response, Some e)" "\<not> otherThanNotFound response"
  using assms
  by (cases rp) (auto simp: notFound_def otherThanNotFound_def split: option.splits)

lemma createOrUpdate_loop_not_found:
  assumes "listNotFound (fst (ListAllDnsRecords cl (opt\<lparr>lContent := Some t\<rparr>) w))"
  shows "createOrUpdate_loop cl r opt (t # ts) w =
     emit (ListCall (opt\<lparr>lContent := Some t\<rparr>))
       (createOrUpdate_loop cl r opt ts (snd (ListAllDnsRecords cl (opt\<lparr>lContent := Some t\<rparr>) w)))"
proof -
  obtain lr w1 where l: "ListAllDnsRecords cl (opt\<lparr>lContent := Some t\<rparr>) w = (lr, w1)"
    by (cases "ListAllDnsRecords cl (opt\<lparr>lContent := Some t\<rparr>) w")
  with assms have "listNotFound lr" by simp
  then obtain result response e where "lr = (result, response, Some e)"
    "\<not> otherThanNotFound response"
    by (rule listNotFound_cases)
  with l show ?thesis
    by (simp add: createOrUpdate_loop.simps(2) Let_def createOrUpdate_loop_content)
qed

lemma delete_loop_not_found:
  assumes "listNotFound (fst (ListAllDnsRecords cl (opt\<lparr>lContent := Some t\<rparr>) w))"
  shows "delete_loop cl opt (t # ts) w =
     emit (ListCall (opt\<lparr>lContent := Some t\<rparr>))
       (delete_loop cl opt ts (snd (ListAllDnsRecords cl (opt\<lparr>lContent := Some t\<rparr>) w)))"
proof -
  obtain lr w1 where l: "ListAllDnsRecords cl (opt\<lparr>lContent := Some t\<rparr>) w = (lr, w1)"
    by (cases "ListAllDnsRecords cl (opt\<lparr>lContent := Some t\<rparr>) w")
  with assms have "listNotFound lr" by simp
  then obtain result response e where "lr = (result, response, Some e)"
    "\<not> otherThanNotFound response"
    by (rule listNotFound_cases)
  with l show ?thesis
    by (simp add: delete_loop.simps(2) Let_def delete_loop_content)
qed

lemma delete_entries_not_found:
  assumes "rID d = Some i"
    and "notFound (fst (DeleteDnsRecord cl (NewDeleteDnsRecordOptions i) w))"
  shows "delete_entries cl (d # ds) w =
     emit (DeleteCall (NewDeleteDnsRecordOptions i))
       (delete_entries cl ds (snd (DeleteDnsRecord cl (NewDeleteDnsRecordOptions i) w)))"
proof -
  obtain rp w1 where l: "DeleteDnsRecord cl (NewDeleteDnsRecordOptions i) w = (rp, w1)"
    by (cases "DeleteDnsRecord cl (NewDeleteDnsRecordOptions i) w")
  with assms have "notFound rp" by simp
  then obtain response e where "rp = (response, Some e)" "\<not> otherThanNotFound response"
    by (rule notFound_cases)
  with l assms(1) show ?thesis
    by (simp add: delete_entries.simps(2) Let_def)
qed

text \<open>
  For a whole operation the replies are constrained only where the operation asks: in
  the remote states of a set \<open>I\<close> that holds the state the operation starts in and
  that the calls of the operation do not leave, and for the list queries of the
  record's own targets.
\<close>

lemma delete_entries_tolerated:
  assumes del: "\<And>i u. I u \<Longrightarrow>
      deleteTolerable (fst (DeleteDnsRecord cl (NewDeleteDnsRecordOptions i) u)) \<and>
      I (snd (DeleteDnsRecord cl (NewDeleteDnsRecordOptions i) u))"
  shows "list_all (\<lambda>e. rID e \<noteq> None) es \<Longrightarrow> I w \<Longrightarrow>
     exit (delete_entries cl es w) = None \<and> I (world (delete_entries cl es w))"
proof (induction es arbitrary: w)
  case Nil
  then show ?case by simp
next
  case (Cons d ds)
  then obtain i where i: "rID d = Some i" and ds: "list_all (\<lambda>e. rID e \<noteq> None) ds"
    by auto
  obtain response err w1 where
    l: "DeleteDnsRecord cl (NewDeleteDnsRecordOptions i) w = ((response, err), w1)"
    by (cases "DeleteDnsRecord cl (NewDeleteDnsRecordOptions i) w") auto
  from del [OF Cons.prems(2), of i] l
  have t: "err = None \<or> \<not> otherThanNotFound response" and w1: "I w1"
    by (auto simp: deleteTolerable_def elim: notFound_cases)
  from t i l Cons.IH [OF ds w1] show ?case
    by (auto simp: delete_entries.simps(2) Let_def split: option.splits)
qed

lemma and_then_world:
  "exit r = None \<Longrightarrow> world (and_then r k) = world (k (world r))"
  by (simp add: and_then_def Let_def)

lemma delete_loop_tolerated:
  assumes del: "\<And>i u. I u \<Longrightarrow>
      deleteTolerable (fst (DeleteDnsRecord cl (NewDeleteDnsRecordOptions i) u)) \<and>
      I (snd (DeleteDnsRecord cl (NewDeleteDnsRecordOptions i) u))"
  shows "(\<And>t u. I u \<Longrightarrow> t \<in> set ts \<Longrightarrow>
       listTolerable (fst (ListAllDnsRecords cl (opt\<lparr>lContent := Some t\<rparr>) u)) \<and>
       I (snd (ListAllDnsRecords cl (opt\<lparr>lContent := Some t\<rparr>) u))) \<Longrightarrow>
     I w \<Longrightarrow>
     exit (delete_loop cl opt ts w) = None \<and> I (world (delete_loop cl opt ts w))"
proof (induction ts arbitrary: w)
  case Nil
  then show ?case by simp
next
  case (Cons t ts)
  let ?o = "opt\<lparr>lContent := Some t\<rparr>"
  have IH: "\<And>u. I u \<Longrightarrow>
      exit (delete_loop cl opt ts u) = None \<and> I (world (delete_loop cl opt ts u))"
    by (rule Cons.IH) (rule Cons.prems(1), assumption, simp)
  obtain result response err w1 where
    l: "ListAllDnsRecords cl ?o w = ((result, response, err), w1)"
    by (cases "ListAllDnsRecords cl ?o w") auto
  from Cons.prems(1) [OF Cons.prems(2), of t] l
  have tol: "listTolerable (result, response, err)" and w1: "I w1"
    by simp_all
  from tol consider (nf) e where "err = Some e" "\<not> otherThanNotFound response"
    | (ok) res es where "err = None" "result = Some res" "Result res = Some es"
        "list_all (\<lambda>e. rID e \<noteq> None) es"
    by (auto simp: listTolerable_def elim!: listNotFound_cases split: option.splits)
  then show ?case
  proof cases
    case nf
    with l IH [OF w1] show ?thesis
      by (simp add: delete_loop.simps(2) Let_def delete_loop_content)
  next
    case ok
    note inner = delete_entries_tolerated [of I cl, OF del ok(4) w1]
    from IH [of "world (delete_entries cl es w1)"] inner
    have "exit (delete_loop cl opt ts (world (delete_entries cl es w1))) = None"
      and "I (world (delete_loop cl opt ts (world (delete_entries cl es w1))))"
      by simp_all
    with ok l inner show ?thesis
      by (simp add: delete_loop.simps(2) Let_def delete_loop_content and_then_exit
          and_then_world)
  qed
qed

lemma deleted_ids_simps [simp]:
  "deleted_ids [] = []" "deleted_ids (c # tr) = deleted_id_of c @ deleted_ids tr"
  "deleted_ids (xs @ ys) = deleted_ids xs @ deleted_ids ys"
  by (simp_all add: deleted_ids_def)

lemma noMatches_cases:
  assumes "noMatches lr"
  obtains (nf) result response e where "lr = (result, response, Some e)"
      "\<not> otherThanNotFound response"
    | (empty) res response where "lr = (Some res, response, None)" "Result res = Some []"
  using assms
  by (cases lr) (auto simp: noMatches_def elim!: listNotFound_cases split: option.splits)

lemma delete_loop_no_matches:
  "(\<And>t u. I u \<Longrightarrow> t \<in> set ts \<Longrightarrow>
       noMatches (fst (ListAllDnsRecords cl (opt\<lparr>lContent := Some t\<rparr>) u)) \<and>
       I (snd (ListAllDnsRecords cl (opt\<lparr>lContent := Some t\<rparr>) u))) \<Longrightarrow>
   I w \<Longrightarrow>
   exit (delete_loop cl opt ts w) = None \<and>
   deleted_ids (calls (delete_loop cl opt ts w)) = [] \<and>
   I (world (delete_loop cl opt ts w))"
proof (induction ts arbitrary: w)
  case Nil
  then show ?case by simp
next
  case (Cons t ts)
  let ?o = "opt\<lparr>lContent := Some t\<rparr>"
  have IH: "\<And>u. I u \<Longrightarrow>
      exit (delete_loop cl opt ts u) = None \<and>
      deleted_ids (calls (delete_loop cl opt ts u)) = [] \<and>
      I (world (delete_loop cl opt ts u))"
    by (rule Cons.IH) (rule Cons.prems(1), assumption, simp)
  obtain lr w1 where l: "ListAllDnsRecords cl ?o w = (lr, w1)"
    by (cases "ListAllDnsRecords cl ?o w")
  from Cons.prems(1) [OF Cons.prems(2), of t] l
  have "noMatches lr" and w1: "I w1"
    by simp_all
  then show ?case
  proof (cases rule: noMatches_cases)
    case nf
    with l IH [OF w1] show ?thesis
      by (simp add: delete_loop.simps(2) Let_def delete_loop_content)
  next
    case empty
    with l IH [OF w1] show ?thesis
      by (simp add: delete_loop.simps(2) Let_def delete_loop_content and_then_fall_through)
  qed
qed

lemma createOrUpdate_loop_all_not_found:
  "(\<And>t u. I u \<Longrightarrow> t \<in> set ts \<Longrightarrow>
       listNotFound (fst (ListAllDnsRecords cl (opt\<lparr>lContent := Some t\<rparr>) u)) \<and>
       I (snd (ListAllDnsRecords cl (opt\<lparr>lContent := Some t\<rparr>) u))) \<Longrightarrow>
   I w \<Longrightarrow>
   exit (createOrUpdate_loop cl r opt ts w) = None \<and>
   written_names (calls (createOrUpdate_loop cl r opt ts w)) = [] \<and>
   I (world (createOrUpdate_loop cl r opt ts w))"
proof (induction ts arbitrary: w)
  case Nil
  then show ?case by (simp add: written_names_def)
next
  case (Cons t ts)
  have IH: "\<And>u. I u \<Longrightarrow>
      exit (createOrUpdate_loop cl r opt ts u) = None \<and>
      written_names (calls (createOrUpdate_loop cl r opt ts u)) = [] \<and>
      I (world (createOrUpdate_loop cl r opt ts u))"
    by (rule Cons.IH) (rule Cons.prems(1), assumption, simp)
  from Cons.prems(1) [OF Cons.prems(2), of t]
  have nf: "listNotFound (fst (ListAllDnsRecords cl (opt\<lparr>lContent := Some t\<rparr>) w))"
    and w1: "I (snd (ListAllDnsRecords cl (opt\<lparr>lContent := Some t\<rparr>) w))"
    by simp_all
  from IH [OF w1] show ?case
    by (simp add: createOrUpdate_loop_not_found [OF nf] written_names_def)
qed

text \<open>
  Claim C7, as amended. "Not found" (an error with status 404) is put up with on list
  calls, in both paths, and on delete calls; on create and update calls it is an error
  like any other.

  A list reply that reports "not found" is not a failure in either path: the loop goes
  on with the next target, having issued the list call only. In \<open>Delete\<close>, a delete
  reply that reports "not found" is not a failure either: the inner loop goes on with
  the next entry. A create or an update that is answered with an error ends the upsert
  loop with that error, whatever the status of the response, 404 included.

  For a whole operation, let \<open>I\<close> be a set of remote states that holds the state the
  operation starts in and that no call of the operation leaves. \<open>Delete\<close> returns no
  error when, in the states of \<open>I\<close>, the list reply for each target of the record is
  "not found" or a result whose entries have ids, and every delete reply is "not found"
  or a success. When the list reply for each target of the record is "not found" or a
  result without entries, that is, when no target has a matching remote entry,
  \<open>Delete\<close> returns no error and issues no delete call, whatever else the remote holds.
  When the list reply for each target is "not found", \<open>Ensure\<close> and \<open>Replace\<close> return
  no error and write nothing.
\<close>

theorem not_found_is_tolerated:
  "(listNotFound (fst (ListAllDnsRecords cl (opt\<lparr>lContent := Some t\<rparr>) w)) \<longrightarrow>
      createOrUpdate_loop cl r opt (t # ts) w =
        emit (ListCall (opt\<lparr>lContent := Some t\<rparr>))
          (createOrUpdate_loop cl r opt ts
             (snd (ListAllDnsRecords cl (opt\<lparr>lContent := Some t\<rparr>) w))) \<and>
      delete_loop cl opt (t # ts) w =
        emit (ListCall (opt\<lparr>lContent := Some t\<rparr>))
          (delete_loop cl opt ts (snd (ListAllDnsRecords cl (opt\<lparr>lContent := Some t\<rparr>) w)))) \<and>
   (rID d = Some i \<and> notFound (fst (DeleteDnsRecord cl (NewDeleteDnsRecordOptions i) w)) \<longrightarrow>
      delete_entries cl (d # ds) w =
        emit (DeleteCall (NewDeleteDnsRecordOptions i))
          (delete_entries cl ds (snd (DeleteDnsRecord cl (NewDeleteDnsRecordOptions i) w)))) \<and>
   (ListAllDnsRecords cl (opt\<lparr>lContent := Some t\<rparr>) w = ((Some res, response, None), w') \<and>
    Result res = Some [] \<and>
    CreateDnsRecord cl
      \<lparr>cName = Some (DNSName (Spec r)), cType = Some (RecordType (Spec r)),
       cContent = Some t, cTTL = Some (RecordTTL (Spec r))\<rparr> w' = ((response', Some e), w'') \<longrightarrow>
      createOrUpdate_loop cl r opt (t # ts) w =
        emit (ListCall (opt\<lparr>lContent := Some t\<rparr>))
          (emit (CreateCall
                   \<lparr>cName = Some (DNSName (Spec r)), cType = Some (RecordType (Spec r)),
                    cContent = Some t, cTTL = Some (RecordTTL (Spec r))\<rparr>)
             (leave (Return (Some
                (Wrap ''createOrUpdateDNSRecord: failed to create the dns record: '' e))) w''))) \<and>
   (ListAllDnsRecords cl (opt\<lparr>lContent := Some t\<rparr>) w = ((Some res, response, None), w') \<and>
    Result res = Some (first # others) \<and> rID first = Some i \<and>
    UpdateDnsRecord cl
      \<lparr>uID = i, uName = Some (DNSName (Spec r)), uType = Some (RecordType (Spec r)),
       uContent = Some t, uTTL = Some (RecordTTL (Spec r))\<rparr> w' = ((response', Some e), w'') \<longrightarrow>
      createOrUpdate_loop cl r opt (t # ts) w =
        emit (ListCall (opt\<lparr>lContent := Some t\<rparr>))
          (emit (UpdateCall
                   \<lparr>uID = i, uName = Some (DNSName (Spec r)), uType = Some (RecordType (Spec r)),
                    uContent = Some t, uTTL = Some (RecordTTL (Spec r))\<rparr>)
             (leave (Return (Some
                (Wrap ''createOrUpdateDNSRecord: failed to update the dns record: '' e))) w''))) \<and>
   (validateInputDNSData (Some r) zone = None \<and> dnsServices p (ID zone) = Some cl \<and> I w \<and>
    (\<forall>u x. I u \<and> x \<in> set (Targets (Spec r)) \<longrightarrow>
       listTolerable (fst (ListAllDnsRecords cl ((deleteListOptions r)\<lparr>lContent := Some x\<rparr>) u)) \<and>
       I (snd (ListAllDnsRecords cl ((deleteListOptions r)\<lparr>lContent := Some x\<rparr>) u))) \<and>
    (\<forall>u j. I u \<longrightarrow>
       deleteTolerable (fst (DeleteDnsRecord cl (NewDeleteDnsRecordOptions j) u)) \<and>
       I (snd (DeleteDnsRecord cl (NewDeleteDnsRecordOptions j) u))) \<longrightarrow>
      returned (Delete p (Some r) zone w) = Return None \<and>
      I (remote_after (Delete p (Some r) zone w))) \<and>
   (validateInputDNSData (Some r) zone = None \<and> dnsServices p (ID zone) = Some cl \<and> I w \<and>
    (\<forall>u x. I u \<and> x \<in> set (Targets (Spec r)) \<longrightarrow>
       noMatches (fst (ListAllDnsRecords cl ((deleteListOptions r)\<lparr>lContent := Some x\<rparr>) u)) \<and>
       I (snd (ListAllDnsRecords cl ((deleteListOptions r)\<lparr>lContent := Some x\<rparr>) u))) \<longrightarrow>
      returned (Delete p (Some r) zone w) = Return None \<and>
      deleted_ids (issued (Delete p (Some r) zone w)) = [] \<and>
      I (remote_after (Delete p (Some r) zone w))) \<and>
   (validateInputDNSData (Some r) zone = None \<and> dnsServices p (ID zone) = Some cl \<and> I w \<and>
    (\<forall>u x. I u \<and> x \<in> set (Targets (Spec r)) \<longrightarrow>
       listNotFound (fst (ListAllDnsRecords cl ((upsertListOptions r)\<lparr>lContent := Some x\<rparr>) u)) \<and>
       I (snd (ListAllDnsRecords cl ((upsertListOptions r)\<lparr>lContent := Some x\<rparr>) u))) \<longrightarrow>
      returned (Ensure p (Some r) zone w) = Return None \<and>
      written_names (issued (Ensure p (Some r) zone w)) = [] \<and>
      returned (Replace p (Some r) zone w) = Return None \<and>
      written_names (issued (Replace p (Some r) zone w)) = [])"
proof (intro conjI impI)
  assume a: "listNotFound (fst (ListAllDnsRecords cl (opt\<lparr>lContent := Some t\<rparr>) w))"
  show "createOrUpdate_loop cl r opt (t # ts) w =
        emit (ListCall (opt\<lparr>lContent := Some t\<rparr>))
          (createOrUpdate_loop cl r opt ts
             (snd (ListAllDnsRecords cl (opt\<lparr>lContent := Some t\<rparr>) w)))"
    by (rule createOrUpdate_loop_not_found [OF a])
  show "delete_loop cl opt (t # ts) w =
        emit (ListCall (opt\<lparr>lContent := Some t\<rparr>))
          (delete_loop cl opt ts (snd (ListAllDnsRecords cl (opt\<lparr>lContent := Some t\<rparr>) w)))"
    by (rule delete_loop_not_found [OF a])
next
  assume "rID d = Some i \<and> notFound (fst (DeleteDnsRecord cl (NewDeleteDnsRecordOptions i) w))"
  then show "delete_entries cl (d # ds) w =
        emit (DeleteCall (NewDeleteDnsRecordOptions i))
          (delete_entries cl ds (snd (DeleteDnsRecord cl (NewDeleteDnsRecordOptions i) w)))"
    by (intro delete_entries_not_found) simp_all
next
  assume a: "ListAllDnsRecords cl (opt\<lparr>lContent := Some t\<rparr>) w = ((Some res, response, None), w') \<and>
    Result res = Some [] \<and>
    CreateDnsRecord cl
      \<lparr>cName = Some (DNSName (Spec r)), cType = Some (RecordType (Spec r)),
       cContent = Some t, cTTL = Some (RecordTTL (Spec r))\<rparr> w' = ((response', Some e), w'')"
  show "createOrUpdate_loop cl r opt (t # ts) w =
        emit (ListCall (opt\<lparr>lContent := Some t\<rparr>))
          (emit (CreateCall
                   \<lparr>cName = Some (DNSName (Spec r)), cType = Some (RecordType (Spec r)),
                    cContent = Some t, cTTL = Some (RecordTTL (Spec r))\<rparr>)
             (leave (Return (Some
                (Wrap ''createOrUpdateDNSRecord: failed to create the dns record: '' e))) w''))"
    by (rule upsert_create_fails
        [OF a [THEN conjunct1] a [THEN conjunct2, THEN conjunct1] a [THEN conjunct2, THEN conjunct2]])
next
  assume a: "ListAllDnsRecords cl (opt\<lparr>lContent := Some t\<rparr>) w = ((Some res, response, None), w') \<and>
    Result res = Some (first # others) \<and> rID first = Some i \<and>
    UpdateDnsRecord cl
      \<lparr>uID = i, uName = Some (DNSName (Spec r)), uType = Some (RecordType (Spec r)),
       uContent = Some t, uTTL = Some (RecordTTL (Spec r))\<rparr> w' = ((response', Some e), w'')"
  show "createOrUpdate_loop cl r opt (t # ts) w =
        emit (ListCall (opt\<lparr>lContent := Some t\<rparr>))
          (emit (UpdateCall
                   \<lparr>uID = i, uName = Some (DNSName (Spec r)), uType = Some (RecordType (Spec r)),
                    uContent = Some t, uTTL = Some (RecordTTL (Spec r))\<rparr>)
             (leave (Return (Some
                (Wrap ''createOrUpdateDNSRecord: failed to update the dns record: '' e))) w''))"
    by (rule upsert_update_fails
        [OF a [THEN conjunct1] a [THEN conjunct2, THEN conjunct1]
          a [THEN conjunct2, THEN conjunct2, THEN conjunct1]
          a [THEN conjunct2, THEN conjunct2, THEN conjunct2]])
next
  assume a: "validateInputDNSData (Some r) zone = None \<and> dnsServices p (ID zone) = Some cl \<and> I w \<and>
    (\<forall>u x. I u \<and> x \<in> set (Targets (Spec r)) \<longrightarrow>
       listTolerable (fst (ListAllDnsRecords cl ((deleteListOptions r)\<lparr>lContent := Some x\<rparr>) u)) \<and>
       I (snd (ListAllDnsRecords cl ((deleteListOptions r)\<lparr>lContent := Some x\<rparr>) u))) \<and>
    (\<forall>u j. I u \<longrightarrow>
       deleteTolerable (fst (DeleteDnsRecord cl (NewDeleteDnsRecordOptions j) u)) \<and>
       I (snd (DeleteDnsRecord cl (NewDeleteDnsRecordOptions j) u)))"
  have "exit (delete_loop cl (deleteListOptions r) (Targets (Spec r)) w) = None \<and>
      I (world (delete_loop cl (deleteListOptions r) (Targets (Spec r)) w))"
  proof (rule delete_loop_tolerated [of I cl])
    show "I w" using a by simp
  qed (use a in simp_all)
  with a show "returned (Delete p (Some r) zone w) = Return None"
    and "I (remote_after (Delete p (Some r) zone w))"
    by (simp_all add: Delete_run)
next
  assume a: "validateInputDNSData (Some r) zone = None \<and> dnsServices p (ID zone) = Some cl \<and> I w \<and>
    (\<forall>u x. I u \<and> x \<in> set (Targets (Spec r)) \<longrightarrow>
       noMatches (fst (ListAllDnsRecords cl ((deleteListOptions r)\<lparr>lContent := Some x\<rparr>) u)) \<and>
       I (snd (ListAllDnsRecords cl ((deleteListOptions r)\<lparr>lContent := Some x\<rparr>) u)))"
  have "exit (delete_loop cl (deleteListOptions r) (Targets (Spec r)) w) = None \<and>
      deleted_ids (calls (delete_loop cl (deleteListOptions r) (Targets (Spec r)) w)) = [] \<and>
      I (world (delete_loop cl (deleteListOptions r) (Targets (Spec r)) w))"
  proof (rule delete_loop_no_matches [of I])
    show "I w" using a by simp
  qed (use a in simp_all)
  with a show "returned (Delete p (Some r) zone w) = Return None"
    and "deleted_ids (issued (Delete p (Some r) zone w)) = []"
    and "I (remote_after (Delete p (Some r) zone w))"
    by (simp_all add: Delete_run)
next
  assume a: "validateInputDNSData (Some r) zone = None \<and> dnsServices p (ID zone) = Some cl \<and> I w \<and>
    (\<forall>u x. I u \<and> x \<in> set (Targets (Spec r)) \<longrightarrow>
       listNotFound (fst (ListAllDnsRecords cl ((upsertListOptions r)\<lparr>lContent := Some x\<rparr>) u)) \<and>
       I (snd (ListAllDnsRecords cl ((upsertListOptions r)\<lparr>lContent := Some x\<rparr>) u)))"
  have "exit (createOrUpdate_loop cl (withTTL r (normalizeTTL (RecordTTL (Spec r))))
        (upsertListOptions r) (Targets (Spec r)) w) = None \<and>
     written_names (calls (createOrUpdate_loop cl (withTTL r (normalizeTTL (RecordTTL (Spec r))))
        (upsertListOptions r) (Targets (Spec r)) w)) = [] \<and>
     I (world (createOrUpdate_loop cl (withTTL r (normalizeTTL (RecordTTL (Spec r))))
        (upsertListOptions r) (Targets (Spec r)) w))"
  proof (rule createOrUpdate_loop_all_not_found [of I])
    show "I w" using a by simp
  qed (use a in simp_all)
  with a show "returned (Ensure p (Some r) zone w) = Return None"
    and "written_names (issued (Ensure p (Some r) zone w)) = []"
    and "returned (Replace p (Some r) zone w) = Return None"
    and "written_names (issued (Replace p (Some r) zone w)) = []"
    by (simp_all add: Ensure_def Replace_def createOrUpdate_run)
qed

text \<open>
  A remote that answers every call with status 404: both operations return no error,
  having listed each target. A remote that lists one entry and answers the delete with
  status 404: \<open>Delete\<close> returns no error. A store that holds an entry of the same name
  for another address and an entry of another name for the same address, neither of
  them a match: \<open>Delete\<close> returns no error, issues no delete call and leaves the store
  as it is. A store that holds a match and another entry: \<open>Delete\<close> returns no error.
  A remote that answers a create or an update with status 404: the loop ends with that
  error.
\<close>

theorem not_found_is_tolerated_witness:
  "listNotFound (listFailed 404) \<and> notFound (failed 404) \<and>
   returned (Ensure (providerOf ''zone-1'' (cannedClient (listFailed 404) (failed 404)))
     (Some (exampleRecord ''a.example.com'' [''1.2.3.4'', ''5.6.7.8''] 300))
     \<lparr>ID = ''zone-1''\<rparr> ()) = Return None \<and>
   returned (Delete (providerOf ''zone-1'' (cannedClient (listFailed 404) (failed 404)))
     (Some (exampleRecord ''a.example.com'' [''1.2.3.4'', ''5.6.7.8''] 300))
     \<lparr>ID = ''zone-1''\<rparr> ()) = Return None \<and>
   deleted_ids (issued (Delete (providerOf ''zone-1'' (cannedClient (listFailed 404) (failed 404)))
     (Some (exampleRecord ''a.example.com'' [''1.2.3.4'', ''5.6.7.8''] 300))
     \<lparr>ID = ''zone-1''\<rparr> ())) = [] \<and>
   returned (Delete (providerOf ''zone-1''
       (cannedClient (listed [exampleEntry (Some ''id-1'') ''1.2.3.4'']) (failed 404)))
     (Some (exampleRecord ''a.example.com'' [''1.2.3.4''] 300))
     \<lparr>ID = ''zone-1''\<rparr> ()) = Return None \<and>
   delete_entries (cannedClient (listed []) (failed 404))
     [exampleEntry (Some ''id-1'') ''1.2.3.4''] () =
     \<lparr>exit = None, world = (), calls = [DeleteCall \<lparr>dID = ''id-1''\<rparr>]\<rparr> \<and>
   returned (Delete (providerOf ''zone-1'' (storeClient (\<lambda>n. n)))
     (Some (exampleRecord ''a.example.com'' [''1.2.3.4'', ''5.6.7.8''] 300))
     \<lparr>ID = ''zone-1''\<rparr>
     \<lparr>entries = [exampleEntry (Some ''i'') ''9.9.9.9'',
                 \<lparr>rID = Some ''ii'', rName = ''b.example.com'', rType = ''A'',
                  rContent = ''1.2.3.4'', rTTL = 300\<rparr>], nextID = 2\<rparr>) = Return None \<and>
   deleted_ids (issued (Delete (providerOf ''zone-1'' (storeClient (\<lambda>n. n)))
     (Some (exampleRecord ''a.example.com'' [''1.2.3.4'', ''5.6.7.8''] 300))
     \<lparr>ID = ''zone-1''\<rparr>
     \<lparr>entries = [exampleEntry (Some ''i'') ''9.9.9.9'',
                 \<lparr>rID = Some ''ii'', rName = ''b.example.com'', rType = ''A'',
                  rContent = ''1.2.3.4'', rTTL = 300\<rparr>], nextID = 2\<rparr>)) = [] \<and>
   remote_after (Delete (providerOf ''zone-1'' (storeClient (\<lambda>n. n)))
     (Some (exampleRecord ''a.example.com'' [''1.2.3.4'', ''5.6.7.8''] 300))
     \<lparr>ID = ''zone-1''\<rparr>
     \<lparr>entries = [exampleEntry (Some ''i'') ''9.9.9.9'',
                 \<lparr>rID = Some ''ii'', rName = ''b.example.com'', rType = ''A'',
                  rContent = ''1.2.3.4'', rTTL = 300\<rparr>], nextID = 2\<rparr>) =
     \<lparr>entries = [exampleEntry (Some ''i'') ''9.9.9.9'',
                 \<lparr>rID = Some ''ii'', rName = ''b.example.com'', rType = ''A'',
                  rContent = ''1.2.3.4'', rTTL = 300\<rparr>], nextID = 2\<rparr> \<and>
   returned (Delete (providerOf ''zone-1'' (storeClient (\<lambda>n. n)))
     (Some (exampleRecord ''a.example.com'' [''1.2.3.4''] 300))
     \<lparr>ID = ''zone-1''\<rparr>
     \<lparr>entries = [exampleEntry (Some ''i'') ''1.2.3.4'', exampleEntry (Some ''ii'') ''9.9.9.9''],
      nextID = 2\<rparr>) = Return None \<and>
   exit (createOrUpdate_loop (cannedClient (listed []) (failed 404))
     (exampleRecord ''a.example.com'' [''1.2.3.4''] 300)
     (upsertListOptions (exampleRecord ''a.example.com'' [''1.2.3.4''] 300)) [''1.2.3.4''] ()) =
     Some (Return (Some (Wrap ''createOrUpdateDNSRecord: failed to create the dns record: ''
       (New ''remote failure'')))) \<and>
   exit (createOrUpdate_loop
     (cannedClient (listed [exampleEntry (Some ''id-1'') ''1.2.3.4'']) (failed 404))
     (exampleRecord ''a.example.com'' [''1.2.3.4''] 300)
     (upsertListOptions (exampleRecord ''a.example.com'' [''1.2.3.4''] 300)) [''1.2.3.4''] ()) =
     Some (Return (Some (Wrap ''createOrUpdateDNSRecord: failed to update the dns record: ''
       (New ''remote failure''))))"
proof -
  let ?cl = "cannedClient (listFailed 404) (failed 404)"
  let ?p = "providerOf ''zone-1'' ?cl"
  let ?r = "exampleRecord ''a.example.com'' [''1.2.3.4'', ''5.6.7.8''] 300"
  let ?z = "\<lparr>ID = ''zone-1''\<rparr>"
  have nf: "listNotFound (listFailed 404)" and nf': "notFound (failed 404)"
    by (simp_all add: listNotFound_def listFailed_def notFound_def failed_def StatusNotFound_def)
  have v: "validateInputDNSData (Some ?r) ?z = None"
    by (simp add: validateInputDNSData_def NewAggregate_def exampleRecord_def)
  have reg: "dnsServices ?p (ID ?z) = Some ?cl"
    by (simp add: providerOf_def)
  note t = not_found_is_tolerated [where p = ?p and cl = ?cl and r = ?r and zone = ?z
      and w = "()" and I = "\<lambda>u. True"]
  have a: "returned (Ensure ?p (Some ?r) ?z ()) = Return None"
    apply (rule t [THEN conjunct2, THEN conjunct2, THEN conjunct2, THEN conjunct2,
          THEN conjunct2, THEN conjunct2, THEN mp, THEN conjunct1])
    using nf v reg apply (simp add: cannedClient_def)
    done
  note u = t [THEN conjunct2, THEN conjunct2, THEN conjunct2, THEN conjunct2,
      THEN conjunct2, THEN conjunct1, THEN mp]
  have b: "returned (Delete ?p (Some ?r) ?z ()) = Return None"
    apply (rule u [THEN conjunct1])
    using nf v reg apply (simp add: cannedClient_def noMatches_def)
    done
  have c: "deleted_ids (issued (Delete ?p (Some ?r) ?z ())) = []"
    apply (rule u [THEN conjunct2, THEN conjunct1])
    using nf v reg apply (simp add: cannedClient_def noMatches_def)
    done
  let ?cl2 = "cannedClient (listed [exampleEntry (Some ''id-1'') ''1.2.3.4'']) (failed 404)"
  let ?p2 = "providerOf ''zone-1'' ?cl2"
  let ?r2 = "exampleRecord ''a.example.com'' [''1.2.3.4''] 300"
  have v2: "validateInputDNSData (Some ?r2) ?z = None"
    by (simp add: validateInputDNSData_def NewAggregate_def exampleRecord_def)
  have reg2: "dnsServices ?p2 (ID ?z) = Some ?cl2"
    by (simp add: providerOf_def)
  have d: "returned (Delete ?p2 (Some ?r2) ?z ()) = Return None"
    apply (rule not_found_is_tolerated [where p = ?p2 and cl = ?cl2 and r = ?r2 and zone = ?z
        and w = "()" and I = "\<lambda>u. True", THEN conjunct2, THEN conjunct2, THEN conjunct2,
        THEN conjunct2, THEN conjunct1, THEN mp, THEN conjunct1])
    using nf' v2 reg2
    apply (simp add: cannedClient_def listTolerable_def deleteTolerable_def listed_def
        succeeded_def exampleEntry_def)
    done
  let ?cl3 = "cannedClient (listed []) (failed 404)"
  have h: "rID (exampleEntry (Some ''id-1'') ''1.2.3.4'') = Some ''id-1'' \<and>
      notFound (fst (DeleteDnsRecord ?cl3 (NewDeleteDnsRecordOptions ''id-1'') ()))"
    using nf' by (simp add: exampleEntry_def cannedClient_def)
  have "delete_entries ?cl3 [exampleEntry (Some ''id-1'') ''1.2.3.4''] () =
      emit (DeleteCall (NewDeleteDnsRecordOptions ''id-1''))
        (delete_entries ?cl3 [] (snd (DeleteDnsRecord ?cl3 (NewDeleteDnsRecordOptions ''id-1'') ())))"
    by (rule not_found_is_tolerated [where cl = ?cl3 and w = "()" and ds = "[]",
        THEN conjunct2, THEN conjunct1, rule_format, OF h])
  then have e: "delete_entries ?cl3 [exampleEntry (Some ''id-1'') ''1.2.3.4''] () =
     \<lparr>exit = None, world = (), calls = [DeleteCall \<lparr>dID = ''id-1''\<rparr>]\<rparr>"
    by (simp add: emit_def fall_through_def NewDeleteDnsRecordOptions_def)
  let ?sc = "storeClient (\<lambda>n. n)"
  let ?ps = "providerOf ''zone-1'' ?sc"
  let ?s = "\<lparr>entries = [exampleEntry (Some ''i'') ''9.9.9.9'',
                 \<lparr>rID = Some ''ii'', rName = ''b.example.com'', rType = ''A'',
                  rContent = ''1.2.3.4'', rTTL = 300\<rparr>], nextID = 2\<rparr>"
  have regs: "dnsServices ?ps (ID ?z) = Some ?sc"
    by (simp add: providerOf_def)
  have inv: "\<forall>u x. u = ?s \<and> x \<in> set (Targets (Spec ?r)) \<longrightarrow>
       noMatches (fst (ListAllDnsRecords ?sc ((deleteListOptions ?r)\<lparr>lContent := Some x\<rparr>) u)) \<and>
       snd (ListAllDnsRecords ?sc ((deleteListOptions ?r)\<lparr>lContent := Some x\<rparr>) u) = ?s"
    by (auto simp: storeClient_def storeList_def noMatches_def listed_def succeeded_def
        matchesFilter_def deleteListOptions_def exampleRecord_def exampleEntry_def)
  note k = not_found_is_tolerated [where p = ?ps and cl = ?sc and r = ?r and zone = ?z
      and w = ?s and I = "\<lambda>u. u = ?s", THEN conjunct2, THEN conjunct2, THEN conjunct2,
      THEN conjunct2, THEN conjunct2, THEN conjunct1, THEN mp,
      OF conjI [OF v conjI [OF regs conjI [OF refl inv]]]]
  have f: "returned (Delete ?ps (Some ?r) ?z ?s) = Return None"
    by (rule k [THEN conjunct1])
  have g: "deleted_ids (issued (Delete ?ps (Some ?r) ?z ?s)) = []"
    by (rule k [THEN conjunct2, THEN conjunct1])
  have g': "remote_after (Delete ?ps (Some ?r) ?z ?s) = ?s"
    by (rule k [THEN conjunct2, THEN conjunct2])
  let ?s2 = "\<lparr>entries = [exampleEntry (Some ''i'') ''1.2.3.4'', exampleEntry (Some ''ii'') ''9.9.9.9''],
      nextID = 2\<rparr>"
  let ?I = "\<lambda>u. list_all (\<lambda>e. rID e \<noteq> None) (entries u)"
  have i0: "?I ?s2"
    by (simp add: exampleEntry_def)
  have il: "\<forall>u x. ?I u \<and> x \<in> set (Targets (Spec ?r2)) \<longrightarrow>
       listTolerable (fst (ListAllDnsRecords ?sc ((deleteListOptions ?r2)\<lparr>lContent := Some x\<rparr>) u)) \<and>
       ?I (snd (ListAllDnsRecords ?sc ((deleteListOptions ?r2)\<lparr>lContent := Some x\<rparr>) u))"
    by (simp add: storeClient_def storeList_def listTolerable_def listed_def succeeded_def
        list_all_iff)
  have idl: "\<forall>u j. ?I u \<longrightarrow>
       deleteTolerable (fst (DeleteDnsRecord ?sc (NewDeleteDnsRecordOptions j) u)) \<and>
       ?I (snd (DeleteDnsRecord ?sc (NewDeleteDnsRecordOptions j) u))"
    by (simp add: storeClient_def storeDelete_def deleteTolerable_def notFound_def failed_def
        succeeded_def StatusNotFound_def list_all_iff)
  have m: "returned (Delete ?ps (Some ?r2) ?z ?s2) = Return None"
    by (rule not_found_is_tolerated [where p = ?ps and cl = ?sc and r = ?r2 and zone = ?z
        and w = ?s2 and I = ?I, THEN conjunct2, THEN conjunct2, THEN conjunct2,
        THEN conjunct2, THEN conjunct1, THEN mp,
        OF conjI [OF v2 conjI [OF regs conjI [OF i0 conjI [OF il idl]]]], THEN conjunct1])
  let ?o = "upsertListOptions ?r2"
  have lc: "ListAllDnsRecords ?cl3 (?o\<lparr>lContent := Some ''1.2.3.4''\<rparr>) () =
      ((Some \<lparr>Result = Some []\<rparr>, Some \<lparr>StatusCode = 200\<rparr>, None), ())"
    by (simp add: cannedClient_def listed_def succeeded_def)
  have cc: "CreateDnsRecord ?cl3
      \<lparr>cName = Some (DNSName (Spec ?r2)), cType = Some (RecordType (Spec ?r2)),
       cContent = Some ''1.2.3.4'', cTTL = Some (RecordTTL (Spec ?r2))\<rparr> () =
      ((Some \<lparr>StatusCode = 404\<rparr>, Some (New ''remote failure'')), ())"
    by (simp add: cannedClient_def failed_def)
  have rc: "Result \<lparr>Result = Some []\<rparr> = Some []"
    by simp
  note n = not_found_is_tolerated [where cl = ?cl3 and r = ?r2 and opt = ?o
      and t = "''1.2.3.4''" and ts = "[]" and w = "()" and w' = "()" and w'' = "()"
      and res = "\<lparr>Result = Some []\<rparr>" and response = "Some \<lparr>StatusCode = 200\<rparr>"
      and response' = "Some \<lparr>StatusCode = 404\<rparr>" and e = "New ''remote failure''",
      THEN conjunct2, THEN conjunct2, THEN conjunct1, THEN mp,
      OF conjI [OF lc conjI [OF rc cc]]]
  have n': "exit (createOrUpdate_loop ?cl3 ?r2 ?o [''1.2.3.4''] ()) =
     Some (Return (Some (Wrap ''createOrUpdateDNSRecord: failed to create the dns record: ''
       (New ''remote failure''))))"
    by (simp add: n)
  have lu: "ListAllDnsRecords ?cl2 (?o\<lparr>lContent := Some ''1.2.3.4''\<rparr>) () =
      ((Some \<lparr>Result = Some [exampleEntry (Some ''id-1'') ''1.2.3.4'']\<rparr>,
        Some \<lparr>StatusCode = 200\<rparr>, None), ())"
    by (simp add: cannedClient_def listed_def succeeded_def)
  have uc: "UpdateDnsRecord ?cl2
      \<lparr>uID = ''id-1'', uName = Some (DNSName (Spec ?r2)), uType = Some (RecordType (Spec ?r2)),
       uContent = Some ''1.2.3.4'', uTTL = Some (RecordTTL (Spec ?r2))\<rparr> () =
      ((Some \<lparr>StatusCode = 404\<rparr>, Some (New ''remote failure'')), ())"
    by (simp add: cannedClient_def failed_def)
  have ru: "Result \<lparr>Result = Some [exampleEntry (Some ''id-1'') ''1.2.3.4'']\<rparr> =
      Some (exampleEntry (Some ''id-1'') ''1.2.3.4'' # [])"
    by simp
  have iu: "rID (exampleEntry (Some ''id-1'') ''1.2.3.4'') = Some ''id-1''"
    by (simp add: exampleEntry_def)
  note q = not_found_is_tolerated [where cl = ?cl2 and r = ?r2 and opt = ?o
      and t = "''1.2.3.4''" and ts = "[]" and w = "()" and w' = "()" and w'' = "()"
      and res = "\<lparr>Result = Some [exampleEntry (Some ''id-1'') ''1.2.3.4'']\<rparr>"
      and response = "Some \<lparr>StatusCode = 200\<rparr>"
      and first = "exampleEntry (Some ''id-1'') ''1.2.3.4''" and others = "[]"
      and i = "''id-1''"
      and response' = "Some \<lparr>StatusCode = 404\<rparr>" and e = "New ''remote failure''",
      THEN conjunct2, THEN conjunct2, THEN conjunct2, THEN conjunct1, THEN mp,
      OF conjI [OF lu conjI [OF ru conjI [OF iu uc]]]]
  have q': "exit (createOrUpdate_loop ?cl2 ?r2 ?o [''1.2.3.4''] ()) =
     Some (Return (Some (Wrap ''createOrUpdateDNSRecord: failed to update the dns record: ''
       (New ''remote failure''))))"
    by (simp add: q)
  from nf nf' a b c d e f g g' m n' q' show ?thesis by (intro conjI)
qed

text \<open>
  The claim as it stands, that a "not found" response is never surfaced as an error,
  does not hold of the create and update calls. An update that is answered with status
  404, the entry having gone since the list call, ends \<open>Ensure\<close> with the update error,
  and a create that is answered with status 404 ends it with the create error.
\<close>

theorem not_found_is_tolerated_counterexample:
  "notFound (failed 404) \<and>
   returned (Ensure (providerOf ''zone-1''
       (cannedClient (listed [exampleEntry (Some ''id-1'') ''1.2.3.4'']) (failed 404)))
     (Some (exampleRecord ''a.example.com'' [''1.2.3.4''] 300)) \<lparr>ID = ''zone-1''\<rparr> ()) =
   Return (Some (Wrap ''createOrUpdateDNSRecord: failed to update the dns record: ''
     (New ''remote failure''))) \<and>
   returned (Ensure (providerOf ''zone-1'' (cannedClient (listed []) (failed 404)))
     (Some (exampleRecord ''a.example.com'' [''1.2.3.4''] 300)) \<lparr>ID = ''zone-1''\<rparr> ()) =
   Return (Some (Wrap ''createOrUpdateDNSRecord: failed to create the dns record: ''
     (New ''remote failure'')))"
proof -
  have v: "validateInputDNSData (Some (exampleRecord ''a.example.com'' [''1.2.3.4''] 300))
      \<lparr>ID = ''zone-1''\<rparr> = None"
    by (simp add: validateInputDNSData_def NewAggregate_def exampleRecord_def)
  have nf: "notFound (failed 404)"
    by (simp add: notFound_def failed_def StatusNotFound_def)
  have u: "returned (Ensure (providerOf ''zone-1''
       (cannedClient (listed [exampleEntry (Some ''id-1'') ''1.2.3.4'']) (failed 404)))
     (Some (exampleRecord ''a.example.com'' [''1.2.3.4''] 300)) \<lparr>ID = ''zone-1''\<rparr> ()) =
   Return (Some (Wrap ''createOrUpdateDNSRecord: failed to update the dns record: ''
     (New ''remote failure'')))"
    unfolding Ensure_def
    by (simp add: createOrUpdate_run [OF v, of _ "cannedClient
          (listed [exampleEntry (Some ''id-1'') ''1.2.3.4'']) (failed 404)"] providerOf_def)
      (simp add: exampleRecord_def createOrUpdate_loop.simps(2) Let_def cannedClient_def
        listed_def succeeded_def failed_def exampleEntry_def NewUpdateDnsRecordOptions_def)
  have c: "returned (Ensure (providerOf ''zone-1'' (cannedClient (listed []) (failed 404)))
     (Some (exampleRecord ''a.example.com'' [''1.2.3.4''] 300)) \<lparr>ID = ''zone-1''\<rparr> ()) =
   Return (Some (Wrap ''createOrUpdateDNSRecord: failed to create the dns record: ''
     (New ''remote failure'')))"
    unfolding Ensure_def
    by (simp add: createOrUpdate_run [OF v, of _ "cannedClient (listed []) (failed 404)"]
          providerOf_def)
      (simp add: exampleRecord_def createOrUpdate_loop.simps(2) Let_def cannedClient_def
        listed_def succeeded_def failed_def NewCreateDnsRecordOptions_def)
  from nf u c show ?thesis by (intro conjI)
qed

subsection \<open>A listed entry without an id\<close>

lemma firstIDNil_cases:
  assumes "firstIDNil lr"
  obtains res response first others where "lr = (Some res, response, None)"
    "Result res = Some (first # others)" "rID first = None"
  using assms
  by (cases lr) (auto simp: firstIDNil_def split: option.splits list.splits)

lemma createOrUpdate_loop_no_panic:
  assumes ok: "\<And>q w'. \<not> firstIDNil (fst (ListAllDnsRecords cl q w'))"
  shows "exit (createOrUpdate_loop cl r opt ts w) \<noteq> Some Panic"
proof (induction ts arbitrary: opt w)
  case Nil
  show ?case by simp
next
  case (Cons t ts)
  have IH: "\<And>opt w. exit (createOrUpdate_loop cl r opt ts w) \<noteq> Some Panic"
    by (rule Cons.IH)
  from ok [of "opt\<lparr>lContent := Some t\<rparr>" w] show ?case
    by (auto simp: createOrUpdate_loop.simps(2) Let_def firstIDNil_def IH
        split: prod.splits option.splits list.splits)
qed

lemma createOrUpdate_loop_panics:
  assumes "firstIDNil (fst (ListAllDnsRecords cl (opt\<lparr>lContent := Some t\<rparr>) w))"
  shows "createOrUpdate_loop cl r opt (t # ts) w =
     emit (ListCall (opt\<lparr>lContent := Some t\<rparr>))
       (leave Panic (snd (ListAllDnsRecords cl (opt\<lparr>lContent := Some t\<rparr>) w)))"
proof -
  obtain lr w1 where l: "ListAllDnsRecords cl (opt\<lparr>lContent := Some t\<rparr>) w = (lr, w1)"
    by (cases "ListAllDnsRecords cl (opt\<lparr>lContent := Some t\<rparr>) w")
  with assms have "firstIDNil lr" by simp
  then obtain res response first others where "lr = (Some res, response, None)"
    "Result res = Some (first # others)" "rID first = None"
    by (rule firstIDNil_cases)
  with l show ?thesis
    by (simp add: createOrUpdate_loop.simps(2) Let_def)
qed

lemma delete_loop_nil_id:
  assumes "firstIDNil (fst (ListAllDnsRecords cl (opt\<lparr>lContent := Some t\<rparr>) w))"
  shows "delete_loop cl opt (t # ts) w =
     emit (ListCall (opt\<lparr>lContent := Some t\<rparr>))
       (leave (Return (Some (New ''delete: record id is nil'')))
          (snd (ListAllDnsRecords cl (opt\<lparr>lContent := Some t\<rparr>) w)))"
proof -
  obtain lr w1 where l: "ListAllDnsRecords cl (opt\<lparr>lContent := Some t\<rparr>) w = (lr, w1)"
    by (cases "ListAllDnsRecords cl (opt\<lparr>lContent := Some t\<rparr>) w")
  with assms have "firstIDNil lr" by simp
  then obtain res response first others where "lr = (Some res, response, None)"
    "Result res = Some (first # others)" "rID first = None"
    by (rule firstIDNil_cases)
  with l show ?thesis
    by (simp add: delete_loop.simps(2) delete_entries.simps(2) Let_def and_then_leave)
qed

lemma createOrUpdate_never_panics_without_nil_id:
  assumes "\<And>cl q w'. dnsServices p (ID zone) = Some cl \<Longrightarrow>
      \<not> firstIDNil (fst (ListAllDnsRecords cl q w'))"
  shows "returned (createOrUpdateDNSRecord p rc zone w) \<noteq> Panic"
proof (cases rule: createOrUpdate_cases [of rc zone p w])
  case (invalid err)
  then show ?thesis by simp
next
  case unknown
  then show ?thesis by simp
next
  case (run r cl)
  have "exit (createOrUpdate_loop cl (withTTL r (normalizeTTL (RecordTTL (Spec r))))
      (upsertListOptions r) (Targets (Spec r)) w) \<noteq> Some Panic"
    by (rule createOrUpdate_loop_no_panic) (rule assms [OF run(3)])
  with run(4) show ?thesis by (auto split: option.splits)
qed

lemma Delete_never_panics: "returned (Delete p rc zone w) \<noteq> Panic"
proof (cases rule: Delete_cases [of rc zone p w])
  case (invalid err)
  then show ?thesis by simp
next
  case unknown
  then show ?thesis by simp
next
  case (run r cl)
  then show ?thesis
    by (auto dest: delete_loop_exit split: option.splits)
qed

text \<open>
  Claim C10. The update branch of the upsert loop dereferences the id of the first
  listed entry without a check. If no list reply of the zone's client ever starts with
  an entry whose id is nil, \<open>Ensure\<close> and \<open>Replace\<close> do not panic. If the list reply for
  the first target starts with such an entry, they panic right after that list call,
  where \<open>Delete\<close>, on the same kind of reply, returns the error "delete: record id is
  nil". \<open>Delete\<close> never panics.
\<close>

theorem nil_id_is_dereferenced_by_upsert_only:
  "((\<forall>cl q w'. dnsServices p (ID zone) = Some cl \<longrightarrow>
        \<not> firstIDNil (fst (ListAllDnsRecords cl q w'))) \<longrightarrow>
      returned (Ensure p rc zone w) \<noteq> Panic \<and> returned (Replace p rc zone w) \<noteq> Panic) \<and>
   (validateInputDNSData (Some r) zone = None \<and> dnsServices p (ID zone) = Some cl \<and>
    Targets (Spec r) = t # ts \<and>
    firstIDNil (fst (ListAllDnsRecords cl ((upsertListOptions r)\<lparr>lContent := Some t\<rparr>) w)) \<longrightarrow>
      returned (Ensure p (Some r) zone w) = Panic \<and>
      returned (Replace p (Some r) zone w) = Panic \<and>
      issued (Ensure p (Some r) zone w) = [ListCall ((upsertListOptions r)\<lparr>lContent := Some t\<rparr>)]) \<and>
   (validateInputDNSData (Some r) zone = None \<and> dnsServices p (ID zone) = Some cl \<and>
    Targets (Spec r) = t # ts \<and>
    firstIDNil (fst (ListAllDnsRecords cl ((deleteListOptions r)\<lparr>lContent := Some t\<rparr>) w)) \<longrightarrow>
      returned (Delete p (Some r) zone w) = Return (Some (New ''delete: record id is nil''))) \<and>
   returned (Delete p rc zone w) \<noteq> Panic"
proof (intro conjI impI)
  assume a: "\<forall>cl q w'. dnsServices p (ID zone) = Some cl \<longrightarrow>
        \<not> firstIDNil (fst (ListAllDnsRecords cl q w'))"
  then have "returned (createOrUpdateDNSRecord p rc zone w) \<noteq> Panic"
    by (intro createOrUpdate_never_panics_without_nil_id) simp
  then show "returned (Ensure p rc zone w) \<noteq> Panic" and "returned (Replace p rc zone w) \<noteq> Panic"
    by (simp_all add: Ensure_def Replace_def)
next
  assume a: "validateInputDNSData (Some r) zone = None \<and> dnsServices p (ID zone) = Some cl \<and>
    Targets (Spec r) = t # ts \<and>
    firstIDNil (fst (ListAllDnsRecords cl ((upsertListOptions r)\<lparr>lContent := Some t\<rparr>) w))"
  then have "createOrUpdate_loop cl (withTTL r (normalizeTTL (RecordTTL (Spec r))))
      (upsertListOptions r) (t # ts) w =
     emit (ListCall ((upsertListOptions r)\<lparr>lContent := Some t\<rparr>))
       (leave Panic (snd (ListAllDnsRecords cl ((upsertListOptions r)\<lparr>lContent := Some t\<rparr>) w)))"
    by (intro createOrUpdate_loop_panics) simp
  with a have "returned (createOrUpdateDNSRecord p (Some r) zone w) = Panic \<and>
      issued (createOrUpdateDNSRecord p (Some r) zone w) =
        [ListCall ((upsertListOptions r)\<lparr>lContent := Some t\<rparr>)]"
    by (simp add: createOrUpdate_run)
  then show "returned (Ensure p (Some r) zone w) = Panic"
    and "returned (Replace p (Some r) zone w) = Panic"
    and "issued (Ensure p (Some r) zone w) = [ListCall ((upsertListOptions r)\<lparr>lContent := Some t\<rparr>)]"
    by (simp_all add: Ensure_def Replace_def)
next
  assume a: "validateInputDNSData (Some r) zone = None \<and> dnsServices p (ID zone) = Some cl \<and>
    Targets (Spec r) = t # ts \<and>
    firstIDNil (fst (ListAllDnsRecords cl ((deleteListOptions r)\<lparr>lContent := Some t\<rparr>) w))"
  then have "delete_loop cl (deleteListOptions r) (t # ts) w =
     emit (ListCall ((deleteListOptions r)\<lparr>lContent := Some t\<rparr>))
       (leave (Return (Some (New ''delete: record id is nil'')))
          (snd (ListAllDnsRecords cl ((deleteListOptions r)\<lparr>lContent := Some t\<rparr>) w)))"
    by (intro delete_loop_nil_id) simp
  with a show "returned (Delete p (Some r) zone w) = Return (Some (New ''delete: record id is nil''))"
    by (simp add: Delete_run)
next
  show "returned (Delete p rc zone w) \<noteq> Panic" by (rule Delete_never_panics)
qed

text \<open>
  A remote whose list replies hold one entry with a nil id makes \<open>Ensure\<close> panic and
  \<open>Delete\<close> return its error; with the id in place \<open>Ensure\<close> updates that entry.
\<close>

theorem nil_id_is_dereferenced_by_upsert_only_witness:
  "firstIDNil (listed [exampleEntry None ''1.2.3.4'']) \<and>
   returned (Ensure (providerOf ''zone-1''
       (cannedClient (listed [exampleEntry None ''1.2.3.4'']) succeeded))
     (Some (exampleRecord ''a.example.com'' [''1.2.3.4''] 300)) \<lparr>ID = ''zone-1''\<rparr> ()) = Panic \<and>
   returned (Delete (providerOf ''zone-1''
       (cannedClient (listed [exampleEntry None ''1.2.3.4'']) succeeded))
     (Some (exampleRecord ''a.example.com'' [''1.2.3.4''] 300)) \<lparr>ID = ''zone-1''\<rparr> ()) =
     Return (Some (New ''delete: record id is nil'')) \<and>
   \<not> firstIDNil (listed [exampleEntry (Some ''id-1'') ''1.2.3.4'']) \<and>
   returned (Ensure (providerOf ''zone-1''
       (cannedClient (listed [exampleEntry (Some ''id-1'') ''1.2.3.4'']) succeeded))
     (Some (exampleRecord ''a.example.com'' [''1.2.3.4''] 300)) \<lparr>ID = ''zone-1''\<rparr> ()) \<noteq> Panic"
proof -
  let ?cl = "cannedClient (listed [exampleEntry None ''1.2.3.4'']) succeeded"
  let ?p = "providerOf ''zone-1'' ?cl"
  let ?r = "exampleRecord ''a.example.com'' [''1.2.3.4''] 300"
  let ?z = "\<lparr>ID = ''zone-1''\<rparr>"
  have nil: "firstIDNil (listed [exampleEntry None ''1.2.3.4''])"
    by (simp add: firstIDNil_def listed_def succeeded_def exampleEntry_def)
  have v: "validateInputDNSData (Some ?r) ?z = None"
    by (simp add: validateInputDNSData_def NewAggregate_def exampleRecord_def)
  have reg: "dnsServices ?p (ID ?z) = Some ?cl"
    by (simp add: providerOf_def)
  have ts: "Targets (Spec ?r) = ''1.2.3.4'' # []"
    by (simp add: exampleRecord_def)
  have l: "firstIDNil (fst (ListAllDnsRecords ?cl q ()))" for q
    using nil by (simp add: cannedClient_def)
  note t = nil_id_is_dereferenced_by_upsert_only [where p = ?p and cl = ?cl and r = ?r
      and zone = ?z and w = "()" and t = "''1.2.3.4''" and ts = "[]"]
  have a: "returned (Ensure ?p (Some ?r) ?z ()) = Panic"
    using t [THEN conjunct2, THEN conjunct1, rule_format,
        OF conjI [OF v conjI [OF reg conjI [OF ts l]]]]
    by (elim conjE)
  have b: "returned (Delete ?p (Some ?r) ?z ()) = Return (Some (New ''delete: record id is nil''))"
    by (rule t [THEN conjunct2, THEN conjunct2, THEN conjunct1, rule_format,
        OF conjI [OF v conjI [OF reg conjI [OF ts l]]]])
  let ?cl2 = "cannedClient (listed [exampleEntry (Some ''id-1'') ''1.2.3.4'']) succeeded"
  let ?p2 = "providerOf ''zone-1'' ?cl2"
  have ok: "\<not> firstIDNil (listed [exampleEntry (Some ''id-1'') ''1.2.3.4''])"
    by (simp add: firstIDNil_def listed_def succeeded_def exampleEntry_def)
  then have h: "\<forall>cl q w'. dnsServices ?p2 (ID ?z) = Some cl \<longrightarrow>
        \<not> firstIDNil (fst (ListAllDnsRecords cl q w'))"
    by (simp add: providerOf_def cannedClient_def)
  have c: "returned (Ensure ?p2 (Some ?r) ?z ()) \<noteq> Panic"
    using nil_id_is_dereferenced_by_upsert_only [where p = ?p2 and zone = ?z and w = "()"
        and rc = "Some ?r", THEN conjunct1, THEN mp, OF h]
    by (rule conjunct1)
  from nil a b ok c show ?thesis by (intro conjI)
qed

section \<open>Ensure against the store\<close>

lemma freshID_inj: "freshID a = freshID b \<longleftrightarrow> a = b"
proof
  assume "freshID a = freshID b"
  then have "length (freshID a) = length (freshID b)" by simp
  then show "a = b" by (simp add: freshID_def)
qed simp

lemma wfStore_ids:
  assumes "wfStore s" "e \<in> set (entries s)"
  obtains k where "k < nextID s" "rID e = Some (freshID k)"
  using assms by (auto simp: wfStore_def list_all_iff list_ex_iff)

lemma wfStore_unique:
  assumes "wfStore s" "e \<in> set (entries s)" "x \<in> set (entries s)" "rID x = rID e"
  shows "x = e"
proof -
  from assms(1) have "inj_on rID (set (entries s))"
    by (simp add: wfStore_def distinct_map)
  with assms(2-4) show ?thesis by (auto dest: inj_onD)
qed

lemma created_simps [simp]:
  "created [] = []" "created (c # tr) = created_of c @ created tr"
  by (simp_all add: created_def)

lemma updated_simps [simp]:
  "updated [] = []" "updated (c # tr) = updated_of c @ updated tr"
  by (simp_all add: updated_def)

lemma storeClient_simps [simp]:
  "ListAllDnsRecords (storeClient canon) = storeList canon"
  "CreateDnsRecord (storeClient canon) = storeCreate canon"
  "UpdateDnsRecord (storeClient canon) = storeUpdate canon"
  "DeleteDnsRecord (storeClient canon) = storeDelete"
  by (simp_all add: storeClient_def)

text \<open>
  The list options and the record the loop runs with: the filter name and the written
  name have the same canonical form.
\<close>

lemma matchesFilter_entriesFor:
  assumes "lType opt = Some (RecordType (Spec r))" "lName opt = Some nm"
    "canon nm = canon (DNSName (Spec r))"
  shows "filter (matchesFilter canon (opt\<lparr>lContent := Some t\<rparr>)) (entries s) =
     entriesFor canon r t s"
proof -
  have "matchesFilter canon (opt\<lparr>lContent := Some t\<rparr>) =
      (\<lambda>e. rName e = canon (DNSName (Spec r)) \<and> rType e = RecordType (Spec r) \<and>
                 rContent e = t)"
    by (rule ext) (simp add: matchesFilter_def assms)
  then show ?thesis by (simp add: entriesFor_def)
qed


lemma entriesFor_subset: "e \<in> set (entriesFor canon r t s) \<Longrightarrow> e \<in> set (entries s)"
  by (simp add: entriesFor_def)

lemma entriesFor_key:
  "e \<in> set (entriesFor canon r t s) \<Longrightarrow>
   rName e = canon (DNSName (Spec r)) \<and> rType e = RecordType (Spec r) \<and> rContent e = t"
  by (simp add: entriesFor_def)

text \<open>One target with no entry yet: a list call, then a create call.\<close>

lemma store_step_create:
  assumes opt: "lType opt = Some (RecordType (Spec r))" "lName opt = Some nm"
    "canon nm = canon (DNSName (Spec r))"
    and none: "entriesFor canon r t s = []"
  shows "createOrUpdate_loop (storeClient canon) r opt (t # ts) s =
     emit (ListCall (opt\<lparr>lContent := Some t\<rparr>))
       (emit (CreateCall \<lparr>cName = Some (DNSName (Spec r)), cType = Some (RecordType (Spec r)),
                          cContent = Some t, cTTL = Some (RecordTTL (Spec r))\<rparr>)
          (createOrUpdate_loop (storeClient canon) r opt ts
             (s\<lparr>entries := entries s @
                  [\<lparr>rID = Some (freshID (nextID s)), rName = canon (DNSName (Spec r)),
                    rType = RecordType (Spec r), rContent = t, rTTL = RecordTTL (Spec r)\<rparr>],
                nextID := Suc (nextID s)\<rparr>)))"
  by (simp add: createOrUpdate_loop.simps(2) Let_def storeList_def listed_def succeeded_def
      matchesFilter_entriesFor [OF opt] none storeCreate_def NewCreateDnsRecordOptions_def
      createOrUpdate_loop_content)

text \<open>One target with an entry: a list call, then an update of the first entry listed.\<close>

lemma store_step_update:
  assumes opt: "lType opt = Some (RecordType (Spec r))" "lName opt = Some nm"
    "canon nm = canon (DNSName (Spec r))"
    and some: "entriesFor canon r t s = e # es" and i: "rID e = Some i"
  shows "createOrUpdate_loop (storeClient canon) r opt (t # ts) s =
     emit (ListCall (opt\<lparr>lContent := Some t\<rparr>))
       (emit (UpdateCall \<lparr>uID = i, uName = Some (DNSName (Spec r)),
                          uType = Some (RecordType (Spec r)),
                          uContent = Some t, uTTL = Some (RecordTTL (Spec r))\<rparr>)
          (createOrUpdate_loop (storeClient canon) r opt ts
             (s\<lparr>entries :=
                  map (\<lambda>x. if rID x = Some i
                            then x\<lparr>rName := canon (DNSName (Spec r)), rType := RecordType (Spec r),
                                   rContent := t, rTTL := RecordTTL (Spec r)\<rparr>
                            else x) (entries s)\<rparr>)))"
proof -
  from some have "e \<in> set (entries s)"
    by (auto intro: entriesFor_subset [of _ canon r t])
  with i have ex: "list_ex (\<lambda>x. rID x = Some i) (entries s)"
    by (auto simp: list_ex_iff)
  show ?thesis
    by (simp add: createOrUpdate_loop.simps(2) Let_def storeList_def listed_def succeeded_def
        matchesFilter_entriesFor [OF opt] some i storeUpdate_def NewUpdateDnsRecordOptions_def
        ex overwrite_def createOrUpdate_loop_content cong: if_cong)
qed

subsection \<open>What a create and an update do to the store\<close>

lemma store_add:
  assumes wf: "wfStore s"
    and new: "new = \<lparr>rID = Some (freshID (nextID s)), rName = canon (DNSName (Spec r)),
        rType = RecordType (Spec r), rContent = t, rTTL = RecordTTL (Spec r)\<rparr>"
    and s': "s' = s\<lparr>entries := entries s @ [new], nextID := Suc (nextID s)\<rparr>"
  shows "wfStore s'"
    and "entriesFor canon r t' s' = entriesFor canon r t' s @ (if t' = t then [new] else [])"
proof -
  have fresh: "rID new \<notin> rID ` set (entries s)"
  proof
    assume "rID new \<in> rID ` set (entries s)"
    then obtain e where e: "e \<in> set (entries s)" "rID e = rID new" by auto
    from wfStore_ids [OF wf e(1)] obtain k where "k < nextID s" "rID e = Some (freshID k)" .
    with e(2) show False by (simp add: new freshID_inj)
  qed
  have old: "list_ex (\<lambda>k. rID e = Some (freshID k)) [0..<Suc (nextID s)]"
    if "e \<in> set (entries s)" for e
  proof -
    from wfStore_ids [OF wf that] obtain k where "k < nextID s" "rID e = Some (freshID k)" .
    then show ?thesis by (auto simp: list_ex_iff intro!: bexI [of _ k])
  qed
  have "list_ex (\<lambda>k. rID new = Some (freshID k)) [0..<Suc (nextID s)]"
    by (auto simp: list_ex_iff new)
  with wf fresh old show "wfStore s'"
    by (auto simp: wfStore_def s' list_all_iff)
  show "entriesFor canon r t' s' = entriesFor canon r t' s @ (if t' = t then [new] else [])"
    by (auto simp: entriesFor_def s' new)
qed

lemma store_touch:
  assumes wf: "wfStore s"
    and some: "entriesFor canon r t s = e # es" and i: "rID e = Some i"
    and f: "f = (\<lambda>x. if rID x = Some i
                       then x\<lparr>rName := canon (DNSName (Spec r)), rType := RecordType (Spec r),
                              rContent := t, rTTL := RecordTTL (Spec r)\<rparr>
                       else x)"
    and s': "s' = s\<lparr>entries := map f (entries s)\<rparr>"
  shows "wfStore s'"
    and "entriesFor canon r t' s' = map f (entriesFor canon r t' s)"
    and "t' \<noteq> t \<Longrightarrow> entriesFor canon r t' s' = entriesFor canon r t' s"
proof -
  from some have e_in: "e \<in> set (entriesFor canon r t s)" by simp
  then have e: "e \<in> set (entries s)" and key: "rName e = canon (DNSName (Spec r))"
    "rType e = RecordType (Spec r)" "rContent e = t"
    by (auto dest: entriesFor_subset entriesFor_key)
  have only: "x = e" if "x \<in> set (entries s)" "rID x = Some i" for x
    using wfStore_unique [OF wf e that(1)] that(2) i by simp
  have ids: "map rID (map f (entries s)) = map rID (entries s)"
    by (simp add: f)
  have "rID \<circ> f = rID" by (rule ext) (simp add: f)
  moreover have "rID (f x) = rID x" for x by (simp add: f)
  ultimately show "wfStore s'"
    using wf by (simp add: wfStore_def s' list_all_iff)
  have same_key: "(rName (f x) = canon (DNSName (Spec r)) \<and> rType (f x) = RecordType (Spec r) \<and>
        rContent (f x) = t') =
      (rName x = canon (DNSName (Spec r)) \<and> rType x = RecordType (Spec r) \<and> rContent x = t')"
    if "x \<in> set (entries s)" for x
  proof (cases "rID x = Some i")
    case True
    with only [OF that] key show ?thesis by (auto simp: f)
  next
    case False
    then show ?thesis by (simp add: f)
  qed
  show m: "entriesFor canon r t' s' = map f (entriesFor canon r t' s)"
    unfolding entriesFor_def s'
    by (simp add: filter_map o_def same_key cong: filter_cong)
  show "entriesFor canon r t' s' = entriesFor canon r t' s" if "t' \<noteq> t"
  proof -
    have "f x = x" if x: "x \<in> set (entriesFor canon r t' s)" for x
    proof -
      from x have "rContent x = t'" "x \<in> set (entries s)"
        by (auto dest: entriesFor_key entriesFor_subset)
      with \<open>t' \<noteq> t\<close> key only have "rID x \<noteq> Some i" by auto
      then show ?thesis by (simp add: f)
    qed
    then have "map f (entriesFor canon r t' s) = entriesFor canon r t' s"
      by (simp add: map_idI)
    with m show ?thesis by simp
  qed
qed

subsection \<open>The first run brings every target to one entry\<close>

lemma store_step:
  assumes opt: "lType opt = Some (RecordType (Spec r))" "lName opt = Some nm"
    "canon nm = canon (DNSName (Spec r))"
    and wf: "wfStore s" and le: "length (entriesFor canon r t s) \<le> 1"
  shows "\<exists>s1 c. createOrUpdate_loop (storeClient canon) r opt (t # ts) s =
           emit (ListCall (opt\<lparr>lContent := Some t\<rparr>))
             (emit c (createOrUpdate_loop (storeClient canon) r opt ts s1)) \<and>
         wfStore s1 \<and>
         (\<exists>e. entriesFor canon r t s1 = [e] \<and> rTTL e = RecordTTL (Spec r)) \<and>
         (\<forall>t'. t' \<noteq> t \<longrightarrow> entriesFor canon r t' s1 = entriesFor canon r t' s)"
proof (cases "entriesFor canon r t s")
  case Nil
  let ?new = "\<lparr>rID = Some (freshID (nextID s)), rName = canon (DNSName (Spec r)),
        rType = RecordType (Spec r), rContent = t, rTTL = RecordTTL (Spec r)\<rparr>"
  let ?s1 = "s\<lparr>entries := entries s @ [?new], nextID := Suc (nextID s)\<rparr>"
  note add = store_add [OF wf refl refl, where canon = canon and r = r and t = t]
  have "entriesFor canon r t ?s1 = [?new]"
    using add(2) [of t] Nil by simp
  moreover have "\<forall>t'. t' \<noteq> t \<longrightarrow> entriesFor canon r t' ?s1 = entriesFor canon r t' s"
    using add(2) by simp
  ultimately show ?thesis
    using store_step_create [OF opt Nil, of ts] add(1) by auto
next
  case (Cons e es)
  with le have es: "es = []" by simp
  from Cons have "e \<in> set (entries s)"
    by (auto intro: entriesFor_subset [of _ canon r t])
  from wfStore_ids [OF wf this] obtain k where i: "rID e = Some (freshID k)" by blast
  let ?f = "\<lambda>x. if rID x = Some (freshID k)
                       then x\<lparr>rName := canon (DNSName (Spec r)), rType := RecordType (Spec r),
                              rContent := t, rTTL := RecordTTL (Spec r)\<rparr>
                       else x"
  let ?s1 = "s\<lparr>entries := map ?f (entries s)\<rparr>"
  note touch = store_touch [OF wf Cons i refl refl]
  have "entriesFor canon r t ?s1 = [?f e]"
    using touch(2) [of t] Cons es by simp
  moreover have "rTTL (?f e) = RecordTTL (Spec r)" using i by simp
  moreover have "\<forall>t'. t' \<noteq> t \<longrightarrow> entriesFor canon r t' ?s1 = entriesFor canon r t' s"
    using touch(3) by simp
  ultimately show ?thesis
    using store_step_update [OF opt Cons i, of ts] touch(1) by blast
qed

lemma first_pass:
  assumes opt: "lType opt = Some (RecordType (Spec r))" "lName opt = Some nm"
    "canon nm = canon (DNSName (Spec r))"
  shows "wfStore s \<Longrightarrow> \<forall>t\<in>set ts. length (entriesFor canon r t s) \<le> 1 \<Longrightarrow>
     exit (createOrUpdate_loop (storeClient canon) r opt ts s) = None \<and>
     wfStore (world (createOrUpdate_loop (storeClient canon) r opt ts s)) \<and>
     (\<forall>t\<in>set ts. \<exists>e.
        entriesFor canon r t (world (createOrUpdate_loop (storeClient canon) r opt ts s)) = [e] \<and>
        rTTL e = RecordTTL (Spec r)) \<and>
     (\<forall>t'. t' \<notin> set ts \<longrightarrow>
        entriesFor canon r t' (world (createOrUpdate_loop (storeClient canon) r opt ts s)) =
        entriesFor canon r t' s)"
proof (induction ts arbitrary: s)
  case Nil
  then show ?case by simp
next
  case (Cons t ts)
  from Cons.prems have le: "length (entriesFor canon r t s) \<le> 1" by simp
  from store_step [OF opt Cons.prems(1) le, of ts] obtain s1 c where
    step: "createOrUpdate_loop (storeClient canon) r opt (t # ts) s =
           emit (ListCall (opt\<lparr>lContent := Some t\<rparr>))
             (emit c (createOrUpdate_loop (storeClient canon) r opt ts s1))"
    and wf1: "wfStore s1"
    and one: "\<exists>e. entriesFor canon r t s1 = [e] \<and> rTTL e = RecordTTL (Spec r)"
    and others: "\<forall>t'. t' \<noteq> t \<longrightarrow> entriesFor canon r t' s1 = entriesFor canon r t' s"
    by blast
  have le1: "\<forall>t'\<in>set ts. length (entriesFor canon r t' s1) \<le> 1"
  proof
    fix t' assume "t' \<in> set ts"
    with Cons.prems(2) have "length (entriesFor canon r t' s) \<le> 1" by simp
    with one others show "length (entriesFor canon r t' s1) \<le> 1"
      by (cases "t' = t") auto
  qed
  note IH = Cons.IH [OF wf1 le1]
  let ?w = "world (createOrUpdate_loop (storeClient canon) r opt ts s1)"
  have w: "world (createOrUpdate_loop (storeClient canon) r opt (t # ts) s) = ?w"
    and x: "exit (createOrUpdate_loop (storeClient canon) r opt (t # ts) s) =
      exit (createOrUpdate_loop (storeClient canon) r opt ts s1)"
    by (simp_all add: step)
  have t_ok: "\<exists>e. entriesFor canon r t ?w = [e] \<and> rTTL e = RecordTTL (Spec r)"
  proof (cases "t \<in> set ts")
    case True
    with IH show ?thesis by blast
  next
    case False
    with IH have "entriesFor canon r t ?w = entriesFor canon r t s1" by blast
    with one show ?thesis by simp
  qed
  have rest: "entriesFor canon r t' ?w = entriesFor canon r t' s" if "t' \<notin> set (t # ts)" for t'
  proof -
    from that IH have "entriesFor canon r t' ?w = entriesFor canon r t' s1" by simp
    with that others show ?thesis by simp
  qed
  from IH t_ok rest show ?case
    unfolding w x by auto
qed

subsection \<open>The second run updates the same entries and leaves the store as it is\<close>

lemma store_step_same:
  assumes opt: "lType opt = Some (RecordType (Spec r))" "lName opt = Some nm"
    "canon nm = canon (DNSName (Spec r))"
    and wf: "wfStore s" and one: "entriesFor canon r t s = [e]"
    and ttl: "rTTL e = RecordTTL (Spec r)"
  shows "\<exists>i. rID e = Some i \<and>
     createOrUpdate_loop (storeClient canon) r opt (t # ts) s =
       emit (ListCall (opt\<lparr>lContent := Some t\<rparr>))
         (emit (UpdateCall \<lparr>uID = i, uName = Some (DNSName (Spec r)),
                            uType = Some (RecordType (Spec r)),
                            uContent = Some t, uTTL = Some (RecordTTL (Spec r))\<rparr>)
            (createOrUpdate_loop (storeClient canon) r opt ts s))"
proof -
  from one have e_in: "e \<in> set (entriesFor canon r t s)" by simp
  then have e: "e \<in> set (entries s)" and key: "rName e = canon (DNSName (Spec r))"
    "rType e = RecordType (Spec r)" "rContent e = t"
    by (auto dest: entriesFor_subset entriesFor_key)
  from wfStore_ids [OF wf e] obtain k where i: "rID e = Some (freshID k)" by blast
  let ?f = "\<lambda>x. if rID x = Some (freshID k)
                       then x\<lparr>rName := canon (DNSName (Spec r)), rType := RecordType (Spec r),
                              rContent := t, rTTL := RecordTTL (Spec r)\<rparr>
                       else x"
  have "?f x = x" if x: "x \<in> set (entries s)" for x
  proof (cases "rID x = Some (freshID k)")
    case True
    with wfStore_unique [OF wf e x] i have "x = e" by simp
    with key ttl show ?thesis by simp
  next
    case False
    then show ?thesis by simp
  qed
  then have "map ?f (entries s) = entries s" by (simp add: map_idI)
  then have "s\<lparr>entries := map ?f (entries s)\<rparr> = s" by simp
  with store_step_update [OF opt one i, of ts] i show ?thesis by simp
qed

lemma second_pass:
  assumes opt: "lType opt = Some (RecordType (Spec r))" "lName opt = Some nm"
    "canon nm = canon (DNSName (Spec r))"
    and wf: "wfStore s"
  shows "\<forall>t\<in>set ts. \<exists>e. entriesFor canon r t s = [e] \<and> rTTL e = RecordTTL (Spec r) \<Longrightarrow>
     exit (createOrUpdate_loop (storeClient canon) r opt ts s) = None \<and>
     world (createOrUpdate_loop (storeClient canon) r opt ts s) = s \<and>
     created (calls (createOrUpdate_loop (storeClient canon) r opt ts s)) = [] \<and>
     map uContent (updated (calls (createOrUpdate_loop (storeClient canon) r opt ts s))) =
       map Some ts \<and>
     (\<forall>u\<in>set (updated (calls (createOrUpdate_loop (storeClient canon) r opt ts s))).
        \<exists>t e. entriesFor canon r t s = [e] \<and> rID e = Some (uID u) \<and> uContent u = Some t)"
proof (induction ts)
  case Nil
  show ?case by simp
next
  case (Cons t ts)
  then obtain e where one: "entriesFor canon r t s = [e]" and ttl: "rTTL e = RecordTTL (Spec r)"
    by auto
  from store_step_same [OF opt wf one ttl, of ts] obtain i where i: "rID e = Some i"
    and step: "createOrUpdate_loop (storeClient canon) r opt (t # ts) s =
       emit (ListCall (opt\<lparr>lContent := Some t\<rparr>))
         (emit (UpdateCall \<lparr>uID = i, uName = Some (DNSName (Spec r)),
                            uType = Some (RecordType (Spec r)),
                            uContent = Some t, uTTL = Some (RecordTTL (Spec r))\<rparr>)
            (createOrUpdate_loop (storeClient canon) r opt ts s))"
    by blast
  from Cons.prems have "\<forall>t\<in>set ts. \<exists>e. entriesFor canon r t s = [e] \<and> rTTL e = RecordTTL (Spec r)"
    by simp
  note IH = Cons.IH [OF this]
  from one i have "\<exists>t' e'. entriesFor canon r t' s = [e'] \<and> rID e' = Some i \<and> Some t = Some t'"
    by blast
  with IH show ?case
    unfolding step by simp
qed

lemma normalizeTTL_idem: "normalizeTTL (normalizeTTL ttl) = normalizeTTL ttl"
  by (simp add: normalizeTTL_cases)

lemma withTTL_withTTL: "withTTL (withTTL r a) b = withTTL r b"
  by (simp add: withTTL_def)

lemma entriesFor_withTTL: "entriesFor canon (withTTL r ttl) t s = entriesFor canon r t s"
  by (simp add: entriesFor_def)

lemma upsertListOptions_withTTL: "upsertListOptions (withTTL r ttl) = upsertListOptions r"
  by (simp add: upsertListOptions_def)

lemma validate_withTTL:
  "validateInputDNSData (Some (withTTL r ttl)) zone = validateInputDNSData (Some r) zone"
  by (simp add: validateInputDNSData_def)

lemma ensure_twice:
  assumes v: "validateInputDNSData (Some r) zone = None"
    and reg: "dnsServices p (ID zone) = Some (storeClient canon)"
    and canon: "canon (TrimSuffix (DNSName (Spec r)) ''.'') = canon (DNSName (Spec r))"
    and wf: "wfStore s"
    and le: "\<forall>t\<in>set (Targets (Spec r)). length (entriesFor canon r t s) \<le> 1"
    and first: "first = Ensure p (Some r) zone s"
    and second: "second = Ensure p (record_after first) zone (remote_after first)"
  shows "returned first = Return None" and "returned second = Return None"
    and "\<forall>t\<in>set (Targets (Spec r)). \<exists>e. entriesFor canon r t (remote_after first) = [e]"
    and "remote_after second = remote_after first"
    and "created (issued second) = []"
    and "map uContent (updated (issued second)) = map Some (Targets (Spec r))"
    and "\<forall>u\<in>set (updated (issued second)).
           \<exists>t e. entriesFor canon r t (remote_after first) = [e] \<and> rID e = Some (uID u) \<and>
             uContent u = Some t"
proof -
  let ?r = "withTTL r (normalizeTTL (RecordTTL (Spec r)))"
  let ?opt = "upsertListOptions r"
  let ?L1 = "createOrUpdate_loop (storeClient canon) ?r ?opt (Targets (Spec r)) s"
  have opt: "lType ?opt = Some (RecordType (Spec ?r))"
    "lName ?opt = Some (TrimSuffix (DNSName (Spec r)) ''.'')"
    "canon (TrimSuffix (DNSName (Spec r)) ''.'') = canon (DNSName (Spec ?r))"
    using canon by (simp_all add: upsertListOptions_def)
  have run1: "first = finish (Some ?r) ?L1"
    unfolding first Ensure_def by (rule createOrUpdate_run [OF v reg])
  from le have le': "\<forall>t\<in>set (Targets (Spec r)). length (entriesFor canon ?r t s) \<le> 1"
    by (simp add: entriesFor_withTTL)
  note p1 = first_pass [OF opt wf le']
  from p1 have x1: "exit ?L1 = None" and wf1: "wfStore (world ?L1)"
    and one: "\<forall>t\<in>set (Targets (Spec r)). \<exists>e.
        entriesFor canon ?r t (world ?L1) = [e] \<and> rTTL e = RecordTTL (Spec ?r)"
    by blast+
  let ?L2 = "createOrUpdate_loop (storeClient canon) ?r ?opt (Targets (Spec r)) (world ?L1)"
  have v': "validateInputDNSData (Some ?r) zone = None"
    using v by (simp add: validate_withTTL)
  have run2: "second = finish (Some ?r) ?L2"
    unfolding second run1 Ensure_def
    using createOrUpdate_run [OF v' reg, of "world ?L1"]
    by (simp add: normalizeTTL_idem withTTL_withTTL upsertListOptions_withTTL)
  note p2 = second_pass [OF opt wf1 one]
  show "returned first = Return None" by (simp add: run1 x1)
  show "returned second = Return None" using p2 by (simp add: run2)
  show "\<forall>t\<in>set (Targets (Spec r)). \<exists>e. entriesFor canon r t (remote_after first) = [e]"
    using one by (auto simp: run1 entriesFor_withTTL)
  show "remote_after second = remote_after first" using p2 by (simp add: run1 run2)
  show "created (issued second) = []" using p2 by (simp add: run2)
  show "map uContent (updated (issued second)) = map Some (Targets (Spec r))"
    using p2 by (simp add: run2)
  show "\<forall>u\<in>set (updated (issued second)).
           \<exists>t e. entriesFor canon r t (remote_after first) = [e] \<and> rID e = Some (uID u) \<and>
             uContent u = Some t"
    using p2 by (simp add: run1 run2 entriesFor_withTTL)
qed

subsection \<open>Calling Ensure twice\<close>

text \<open>
  Claim C8, as amended. Against the store, for a record that passes validation in a
  zone registered with the store's client, provided that
  \<^item> the provider's canonical form of the desired name is that of the name with its
    trailing dot stripped, so that the list filter finds what the create wrote (with
    exact matching: the name does not end in a dot);
  \<^item> the store is well formed: every entry has an id, the ids are distinct and were
    handed out by the store;
  \<^item> the store holds at most one entry for each target beforehand:

  two calls of \<open>Ensure\<close> in succession both return no error, each target has exactly one
  entry after the first call and after the second, the second call creates nothing,
  issues one update per target, each on the id of that target's entry, and leaves the
  store as the first call left it.
\<close>

theorem ensure_twice_leaves_one_entry_per_target:
  "validateInputDNSData (Some r) zone = None \<and>
   dnsServices p (ID zone) = Some (storeClient canon) \<and>
   canon (TrimSuffix (DNSName (Spec r)) ''.'') = canon (DNSName (Spec r)) \<and>
   wfStore s \<and> (\<forall>t\<in>set (Targets (Spec r)). length (entriesFor canon r t s) \<le> 1) \<longrightarrow>
   (let first = Ensure p (Some r) zone s;
        second = Ensure p (record_after first) zone (remote_after first)
    in returned first = Return None \<and> returned second = Return None \<and>
       (\<forall>t\<in>set (Targets (Spec r)).
          length (entriesFor canon r t (remote_after first)) = 1 \<and>
          length (entriesFor canon r t (remote_after second)) = 1) \<and>
       remote_after second = remote_after first \<and>
       created (issued second) = [] \<and>
       map uContent (updated (issued second)) = map Some (Targets (Spec r)) \<and>
       (\<forall>u\<in>set (updated (issued second)).
          \<exists>t e. entriesFor canon r t (remote_after first) = [e] \<and> rID e = Some (uID u) \<and>
            uContent u = Some t))"
proof (intro impI, elim conjE)
  assume a: "validateInputDNSData (Some r) zone = None"
    "dnsServices p (ID zone) = Some (storeClient canon)"
    "canon (TrimSuffix (DNSName (Spec r)) ''.'') = canon (DNSName (Spec r))"
    "wfStore s" "\<forall>t\<in>set (Targets (Spec r)). length (entriesFor canon r t s) \<le> 1"
  note e = ensure_twice [OF a refl refl]
  from e(3) have one: "\<forall>t\<in>set (Targets (Spec r)).
      length (entriesFor canon r t (remote_after (Ensure p (Some r) zone s))) = 1"
    by auto
  show "let first = Ensure p (Some r) zone s;
        second = Ensure p (record_after first) zone (remote_after first)
    in returned first = Return None \<and> returned second = Return None \<and>
       (\<forall>t\<in>set (Targets (Spec r)).
          length (entriesFor canon r t (remote_after first)) = 1 \<and>
          length (entriesFor canon r t (remote_after second)) = 1) \<and>
       remote_after second = remote_after first \<and>
       created (issued second) = [] \<and>
       map uContent (updated (issued second)) = map Some (Targets (Spec r)) \<and>
       (\<forall>u\<in>set (updated (issued second)).
          \<exists>t e. entriesFor canon r t (remote_after first) = [e] \<and> rID e = Some (uID u) \<and>
            uContent u = Some t)"
    unfolding Let_def
    using e(1) e(2) one e(4) e(5) e(6) e(7)
    by (intro conjI) simp_all
qed

text \<open>
  Two targets on the empty store with exact name matching, and the wildcard name with
  its trailing dot against a provider that strips it.
\<close>

theorem ensure_twice_leaves_one_entry_per_target_witness:
  "validateInputDNSData (Some (exampleRecord ''a.example.com'' [''1.2.3.4'', ''5.6.7.8''] 50))
     \<lparr>ID = ''zone-1''\<rparr> = None \<and>
   TrimSuffix ''a.example.com'' ''.'' = ''a.example.com'' \<and>
   wfStore emptyStore \<and>
   remote_after (Ensure (providerOf ''zone-1'' (storeClient (\<lambda>n. n)))
     (record_after (Ensure (providerOf ''zone-1'' (storeClient (\<lambda>n. n)))
        (Some (exampleRecord ''a.example.com'' [''1.2.3.4'', ''5.6.7.8''] 50))
        \<lparr>ID = ''zone-1''\<rparr> emptyStore))
     \<lparr>ID = ''zone-1''\<rparr>
     (remote_after (Ensure (providerOf ''zone-1'' (storeClient (\<lambda>n. n)))
        (Some (exampleRecord ''a.example.com'' [''1.2.3.4'', ''5.6.7.8''] 50))
        \<lparr>ID = ''zone-1''\<rparr> emptyStore))) =
   remote_after (Ensure (providerOf ''zone-1'' (storeClient (\<lambda>n. n)))
        (Some (exampleRecord ''a.example.com'' [''1.2.3.4'', ''5.6.7.8''] 50))
        \<lparr>ID = ''zone-1''\<rparr> emptyStore) \<and>
   map uContent (updated (issued (Ensure (providerOf ''zone-1'' (storeClient (\<lambda>n. n)))
     (record_after (Ensure (providerOf ''zone-1'' (storeClient (\<lambda>n. n)))
        (Some (exampleRecord ''a.example.com'' [''1.2.3.4'', ''5.6.7.8''] 50))
        \<lparr>ID = ''zone-1''\<rparr> emptyStore))
     \<lparr>ID = ''zone-1''\<rparr>
     (remote_after (Ensure (providerOf ''zone-1'' (storeClient (\<lambda>n. n)))
        (Some (exampleRecord ''a.example.com'' [''1.2.3.4'', ''5.6.7.8''] 50))
        \<lparr>ID = ''zone-1''\<rparr> emptyStore))))) = [Some ''1.2.3.4'', Some ''5.6.7.8''] \<and>
   TrimSuffix (TrimSuffix ''*.apps.example.com.'' ''.'') ''.'' =
     TrimSuffix ''*.apps.example.com.'' ''.'' \<and>
   created (issued (Ensure (providerOf ''zone-1'' (storeClient (\<lambda>n. TrimSuffix n ''.'')))
     (record_after (Ensure (providerOf ''zone-1'' (storeClient (\<lambda>n. TrimSuffix n ''.'')))
        (Some (exampleRecord ''*.apps.example.com.'' [''1.2.3.4''] 300))
        \<lparr>ID = ''zone-1''\<rparr> emptyStore))
     \<lparr>ID = ''zone-1''\<rparr>
     (remote_after (Ensure (providerOf ''zone-1'' (storeClient (\<lambda>n. TrimSuffix n ''.'')))
        (Some (exampleRecord ''*.apps.example.com.'' [''1.2.3.4''] 300))
        \<lparr>ID = ''zone-1''\<rparr> emptyStore)))) = []"
proof -
  let ?z = "\<lparr>ID = ''zone-1''\<rparr>"
  let ?p = "providerOf ''zone-1'' (storeClient (\<lambda>n. n))"
  let ?r = "exampleRecord ''a.example.com'' [''1.2.3.4'', ''5.6.7.8''] 50"
  have v: "validateInputDNSData (Some ?r) ?z = None"
    by (simp add: validateInputDNSData_def NewAggregate_def exampleRecord_def)
  have reg: "dnsServices ?p (ID ?z) = Some (storeClient (\<lambda>n. n))"
    by (simp add: providerOf_def)
  have trim: "TrimSuffix ''a.example.com'' ''.'' = ''a.example.com''"
    by (simp add: TrimSuffix_def HasSuffix_def)
  have canon: "(\<lambda>n. n) (TrimSuffix (DNSName (Spec ?r)) ''.'') = (\<lambda>n. n) (DNSName (Spec ?r))"
    by (simp add: exampleRecord_def trim)
  have wf: "wfStore emptyStore"
    by (simp add: wfStore_def emptyStore_def)
  have le: "\<forall>t\<in>set (Targets (Spec ?r)). length (entriesFor (\<lambda>n. n) ?r t emptyStore) \<le> 1"
    by (simp add: entriesFor_def emptyStore_def)
  note t = ensure_twice_leaves_one_entry_per_target [where p = ?p and r = ?r and zone = ?z
      and canon = "\<lambda>n. n" and s = emptyStore, unfolded Let_def, rule_format,
      OF conjI [OF v conjI [OF reg conjI [OF canon conjI [OF wf le]]]]]
  note same = t [THEN conjunct2, THEN conjunct2, THEN conjunct2, THEN conjunct1]
  have upd: "map uContent (updated (issued (Ensure ?p
      (record_after (Ensure ?p (Some ?r) ?z emptyStore)) ?z
      (remote_after (Ensure ?p (Some ?r) ?z emptyStore))))) = [Some ''1.2.3.4'', Some ''5.6.7.8'']"
    using t [THEN conjunct2, THEN conjunct2, THEN conjunct2, THEN conjunct2, THEN conjunct2,
        THEN conjunct1]
    by (simp add: exampleRecord_def)
  let ?c = "\<lambda>n. TrimSuffix n ''.''"
  let ?p2 = "providerOf ''zone-1'' (storeClient ?c)"
  let ?r2 = "exampleRecord ''*.apps.example.com.'' [''1.2.3.4''] 300"
  have v2: "validateInputDNSData (Some ?r2) ?z = None"
    by (simp add: validateInputDNSData_def NewAggregate_def exampleRecord_def)
  have reg2: "dnsServices ?p2 (ID ?z) = Some (storeClient ?c)"
    by (simp add: providerOf_def)
  have trim2: "TrimSuffix (TrimSuffix ''*.apps.example.com.'' ''.'') ''.'' =
      TrimSuffix ''*.apps.example.com.'' ''.''"
    by (simp add: TrimSuffix_def HasSuffix_def)
  then have canon2: "?c (TrimSuffix (DNSName (Spec ?r2)) ''.'') = ?c (DNSName (Spec ?r2))"
    by (simp add: exampleRecord_def)
  have le2: "\<forall>t\<in>set (Targets (Spec ?r2)). length (entriesFor ?c ?r2 t emptyStore) \<le> 1"
    by (simp add: entriesFor_def emptyStore_def)
  note t2 = ensure_twice_leaves_one_entry_per_target [where p = ?p2 and r = ?r2 and zone = ?z
      and canon = ?c and s = emptyStore, unfolded Let_def, rule_format,
      OF conjI [OF v2 conjI [OF reg2 conjI [OF canon2 conjI [OF wf le2]]]]]
  note none = t2 [THEN conjunct2, THEN conjunct2, THEN conjunct2, THEN conjunct2, THEN conjunct1]
  from v trim wf same upd trim2 none show ?thesis by (intro conjI)
qed

text \<open>
  The claim as it stands covers every valid record and every state of the remote. Two
  states show that it does not hold of all of them, whether the provider matches names
  exactly or drops a trailing dot; the name has no dot.

  A store that holds two entries for the one target: each call of \<open>Ensure\<close> lists both,
  updates the first and leaves the second, so that two entries remain.

  A store whose entry for the target has no id: \<open>Ensure\<close> dereferences the id and
  does not return.
\<close>

lemma duplicates_run:
  assumes c: "canon ''a.example.com'' = ''a.example.com''"
  shows "createOrUpdateDNSRecord (providerOf ''zone-1'' (storeClient canon))
     (Some (exampleRecord ''a.example.com'' [''1.2.3.4''] 300)) \<lparr>ID = ''zone-1''\<rparr>
     \<lparr>entries = [exampleEntry (Some ''i'') ''1.2.3.4'', exampleEntry (Some ''ii'') ''1.2.3.4''],
      nextID = 2\<rparr> =
     \<lparr>returned = Return None,
      record_after = Some (exampleRecord ''a.example.com'' [''1.2.3.4''] 300),
      remote_after =
        \<lparr>entries = [exampleEntry (Some ''i'') ''1.2.3.4'', exampleEntry (Some ''ii'') ''1.2.3.4''],
         nextID = 2\<rparr>,
      issued =
        [ListCall \<lparr>lType = Some ''A'', lName = Some ''a.example.com'',
                   lContent = Some ''1.2.3.4''\<rparr>,
         UpdateCall \<lparr>uID = ''i'', uName = Some ''a.example.com'', uType = Some ''A'',
                     uContent = Some ''1.2.3.4'', uTTL = Some 300\<rparr>]\<rparr>"
proof -
  have trim: "TrimSuffix ''a.example.com'' ''.'' = ''a.example.com''"
    by (simp add: TrimSuffix_def HasSuffix_def)
  have v: "validateInputDNSData (Some (exampleRecord ''a.example.com'' [''1.2.3.4''] 300))
      \<lparr>ID = ''zone-1''\<rparr> = None"
    by (simp add: validateInputDNSData_def NewAggregate_def exampleRecord_def)
  show ?thesis
    by (simp add: createOrUpdate_run [OF v, of _ "storeClient canon"] providerOf_def)
      (simp add: exampleRecord_def withTTL_def normalizeTTL_cases upsertListOptions_def trim c
        createOrUpdate_loop.simps(2) Let_def storeList_def listed_def succeeded_def
        matchesFilter_def exampleEntry_def storeUpdate_def overwrite_def
        NewUpdateDnsRecordOptions_def finish_def emit_def fall_through_def)
qed

lemma nil_id_run:
  assumes c: "canon ''a.example.com'' = ''a.example.com''"
  shows "returned (createOrUpdateDNSRecord (providerOf ''zone-1'' (storeClient canon))
     (Some (exampleRecord ''a.example.com'' [''1.2.3.4''] 300)) \<lparr>ID = ''zone-1''\<rparr>
     \<lparr>entries = [exampleEntry None ''1.2.3.4''], nextID = 0\<rparr>) = Panic"
proof -
  have trim: "TrimSuffix ''a.example.com'' ''.'' = ''a.example.com''"
    by (simp add: TrimSuffix_def HasSuffix_def)
  have v: "validateInputDNSData (Some (exampleRecord ''a.example.com'' [''1.2.3.4''] 300))
      \<lparr>ID = ''zone-1''\<rparr> = None"
    by (simp add: validateInputDNSData_def NewAggregate_def exampleRecord_def)
  show ?thesis
    by (simp add: createOrUpdate_run [OF v, of _ "storeClient canon"] providerOf_def)
      (simp add: exampleRecord_def withTTL_def normalizeTTL_cases upsertListOptions_def trim c
        createOrUpdate_loop.simps(2) Let_def storeList_def listed_def succeeded_def
        matchesFilter_def exampleEntry_def)
qed

theorem ensure_twice_leaves_one_entry_per_target_counterexample:
  "validateInputDNSData (Some (exampleRecord ''a.example.com'' [''1.2.3.4''] 300))
     \<lparr>ID = ''zone-1''\<rparr> = None \<and>
   wfStore
     \<lparr>entries = [exampleEntry (Some ''i'') ''1.2.3.4'', exampleEntry (Some ''ii'') ''1.2.3.4''],
      nextID = 2\<rparr> \<and>
   returned (Ensure (providerOf ''zone-1'' (storeClient (\<lambda>n. n)))
     (Some (exampleRecord ''a.example.com'' [''1.2.3.4''] 300)) \<lparr>ID = ''zone-1''\<rparr>
     (remote_after (Ensure (providerOf ''zone-1'' (storeClient (\<lambda>n. n)))
        (Some (exampleRecord ''a.example.com'' [''1.2.3.4''] 300)) \<lparr>ID = ''zone-1''\<rparr>
        \<lparr>entries = [exampleEntry (Some ''i'') ''1.2.3.4'',
                    exampleEntry (Some ''ii'') ''1.2.3.4''], nextID = 2\<rparr>))) = Return None \<and>
   entriesFor (\<lambda>n. n) (exampleRecord ''a.example.com'' [''1.2.3.4''] 300) ''1.2.3.4''
     (remote_after (Ensure (providerOf ''zone-1'' (storeClient (\<lambda>n. n)))
     (Some (exampleRecord ''a.example.com'' [''1.2.3.4''] 300)) \<lparr>ID = ''zone-1''\<rparr>
     (remote_after (Ensure (providerOf ''zone-1'' (storeClient (\<lambda>n. n)))
        (Some (exampleRecord ''a.example.com'' [''1.2.3.4''] 300)) \<lparr>ID = ''zone-1''\<rparr>
        \<lparr>entries = [exampleEntry (Some ''i'') ''1.2.3.4'',
                    exampleEntry (Some ''ii'') ''1.2.3.4''], nextID = 2\<rparr>)))) =
     [exampleEntry (Some ''i'') ''1.2.3.4'', exampleEntry (Some ''ii'') ''1.2.3.4''] \<and>
   entriesFor (\<lambda>n. TrimSuffix n ''.'') (exampleRecord ''a.example.com'' [''1.2.3.4''] 300)
     ''1.2.3.4''
     (remote_after (Ensure (providerOf ''zone-1'' (storeClient (\<lambda>n. TrimSuffix n ''.'')))
     (Some (exampleRecord ''a.example.com'' [''1.2.3.4''] 300)) \<lparr>ID = ''zone-1''\<rparr>
     (remote_after (Ensure (providerOf ''zone-1'' (storeClient (\<lambda>n. TrimSuffix n ''.'')))
        (Some (exampleRecord ''a.example.com'' [''1.2.3.4''] 300)) \<lparr>ID = ''zone-1''\<rparr>
        \<lparr>entries = [exampleEntry (Some ''i'') ''1.2.3.4'',
                    exampleEntry (Some ''ii'') ''1.2.3.4''], nextID = 2\<rparr>)))) =
     [exampleEntry (Some ''i'') ''1.2.3.4'', exampleEntry (Some ''ii'') ''1.2.3.4''] \<and>
   returned (Ensure (providerOf ''zone-1'' (storeClient (\<lambda>n. n)))
     (Some (exampleRecord ''a.example.com'' [''1.2.3.4''] 300)) \<lparr>ID = ''zone-1''\<rparr>
     \<lparr>entries = [exampleEntry None ''1.2.3.4''], nextID = 0\<rparr>) = Panic \<and>
   returned (Ensure (providerOf ''zone-1'' (storeClient (\<lambda>n. TrimSuffix n ''.'')))
     (Some (exampleRecord ''a.example.com'' [''1.2.3.4''] 300)) \<lparr>ID = ''zone-1''\<rparr>
     \<lparr>entries = [exampleEntry None ''1.2.3.4''], nextID = 0\<rparr>) = Panic"
proof -
  let ?r = "exampleRecord ''a.example.com'' [''1.2.3.4''] 300"
  let ?z = "\<lparr>ID = ''zone-1''\<rparr>"
  let ?s = "\<lparr>entries = [exampleEntry (Some ''i'') ''1.2.3.4'',
                    exampleEntry (Some ''ii'') ''1.2.3.4''], nextID = 2\<rparr>"
  have trim: "TrimSuffix ''a.example.com'' ''.'' = ''a.example.com''"
    by (simp add: TrimSuffix_def HasSuffix_def)
  have v: "validateInputDNSData (Some ?r) ?z = None"
    by (simp add: validateInputDNSData_def NewAggregate_def exampleRecord_def)
  have wf: "wfStore ?s"
    by (simp add: wfStore_def exampleEntry_def freshID_def numeral_2_eq_2)
  note exact = duplicates_run [of "\<lambda>n. n", OF refl]
  note drop = duplicates_run [of "\<lambda>n. TrimSuffix n ''.''", OF trim]
  have a: "returned (Ensure (providerOf ''zone-1'' (storeClient (\<lambda>n. n))) (Some ?r) ?z
      (remote_after (Ensure (providerOf ''zone-1'' (storeClient (\<lambda>n. n))) (Some ?r) ?z ?s))) =
      Return None"
    unfolding Ensure_def by (simp add: exact)
  have b: "entriesFor (\<lambda>n. n) ?r ''1.2.3.4''
      (remote_after (Ensure (providerOf ''zone-1'' (storeClient (\<lambda>n. n))) (Some ?r) ?z
      (remote_after (Ensure (providerOf ''zone-1'' (storeClient (\<lambda>n. n))) (Some ?r) ?z ?s)))) =
      [exampleEntry (Some ''i'') ''1.2.3.4'', exampleEntry (Some ''ii'') ''1.2.3.4'']"
    unfolding Ensure_def
    by (simp add: exact) (simp add: entriesFor_def exampleRecord_def exampleEntry_def)
  have c: "entriesFor (\<lambda>n. TrimSuffix n ''.'') ?r ''1.2.3.4''
      (remote_after (Ensure (providerOf ''zone-1'' (storeClient (\<lambda>n. TrimSuffix n ''.'')))
        (Some ?r) ?z
      (remote_after (Ensure (providerOf ''zone-1'' (storeClient (\<lambda>n. TrimSuffix n ''.'')))
        (Some ?r) ?z ?s)))) =
      [exampleEntry (Some ''i'') ''1.2.3.4'', exampleEntry (Some ''ii'') ''1.2.3.4'']"
    unfolding Ensure_def
    by (simp add: drop) (simp add: entriesFor_def exampleRecord_def exampleEntry_def trim)
  have d: "returned (Ensure (providerOf ''zone-1'' (storeClient (\<lambda>n. n))) (Some ?r) ?z
      \<lparr>entries = [exampleEntry None ''1.2.3.4''], nextID = 0\<rparr>) = Panic"
    unfolding Ensure_def by (rule nil_id_run [of "\<lambda>n. n", OF refl])
  have e: "returned (Ensure (providerOf ''zone-1'' (storeClient (\<lambda>n. TrimSuffix n ''.'')))
      (Some ?r) ?z \<lparr>entries = [exampleEntry None ''1.2.3.4''], nextID = 0\<rparr>) = Panic"
    unfolding Ensure_def by (rule nil_id_run [of "\<lambda>n. TrimSuffix n ''.''", OF trim])
  from v wf a b c d e show ?thesis by (intro conjI)
qed

text \<open>
  The first proviso is about the provider, whose way of comparing names neither the
  specification nor the source settles. For a provider that drops a trailing dot it
  holds of every name. For a provider that matches names exactly it holds of the names
  without a trailing dot only, and there it cannot be dropped: with the name
  \<open>a.example.com.\<close> and one target, on the empty store, the first call lists
  \<open>a.example.com\<close>, finds nothing and creates the entry under \<open>a.example.com.\<close>; the
  second call lists \<open>a.example.com\<close> again, finds nothing and creates a second entry.
\<close>

lemma dotted_run:
  assumes "list_all (\<lambda>e. \<not> (rName e = ''a.example.com'' \<and> rType e = ''A'' \<and>
      rContent e = ''1.2.3.4'')) es"
  shows "createOrUpdateDNSRecord (providerOf ''zone-1'' (storeClient (\<lambda>n. n)))
     (Some (exampleRecord ''a.example.com.'' [''1.2.3.4''] 300)) \<lparr>ID = ''zone-1''\<rparr>
     \<lparr>entries = es, nextID = k\<rparr> =
     \<lparr>returned = Return None,
      record_after = Some (exampleRecord ''a.example.com.'' [''1.2.3.4''] 300),
      remote_after = \<lparr>entries = es @
         [\<lparr>rID = Some (freshID k), rName = ''a.example.com.'', rType = ''A'',
           rContent = ''1.2.3.4'', rTTL = 300\<rparr>], nextID = Suc k\<rparr>,
      issued =
        [ListCall \<lparr>lType = Some ''A'', lName = Some ''a.example.com'',
                   lContent = Some ''1.2.3.4''\<rparr>,
         CreateCall \<lparr>cName = Some ''a.example.com.'', cType = Some ''A'',
                     cContent = Some ''1.2.3.4'', cTTL = Some 300\<rparr>]\<rparr>"
proof -
  have trim: "TrimSuffix ''a.example.com.'' ''.'' = ''a.example.com''"
    by (simp add: TrimSuffix_def HasSuffix_def)
  have v: "validateInputDNSData (Some (exampleRecord ''a.example.com.'' [''1.2.3.4''] 300))
      \<lparr>ID = ''zone-1''\<rparr> = None"
    by (simp add: validateInputDNSData_def NewAggregate_def exampleRecord_def)
  have none: "filter (matchesFilter (\<lambda>n. n)
        \<lparr>lType = Some ''A'', lName = Some ''a.example.com'', lContent = Some ''1.2.3.4''\<rparr>) es = []"
    using assms by (auto simp: filter_empty_conv matchesFilter_def list_all_iff)
  show ?thesis
    by (simp add: createOrUpdate_run [OF v, of _ "storeClient (\<lambda>n. n)"] providerOf_def)
      (simp add: exampleRecord_def withTTL_def normalizeTTL_cases upsertListOptions_def trim
        createOrUpdate_loop.simps(2) Let_def storeList_def listed_def succeeded_def none
        storeCreate_def NewCreateDnsRecordOptions_def finish_def emit_def fall_through_def)
qed

lemma exact_matching_creates_dotted_name_twice:
  "validateInputDNSData (Some (exampleRecord ''a.example.com.'' [''1.2.3.4''] 300))
     \<lparr>ID = ''zone-1''\<rparr> = None \<and>
   remote_after (Ensure (providerOf ''zone-1'' (storeClient (\<lambda>n. n)))
     (Some (exampleRecord ''a.example.com.'' [''1.2.3.4''] 300)) \<lparr>ID = ''zone-1''\<rparr>
     (remote_after (Ensure (providerOf ''zone-1'' (storeClient (\<lambda>n. n)))
        (Some (exampleRecord ''a.example.com.'' [''1.2.3.4''] 300)) \<lparr>ID = ''zone-1''\<rparr>
        emptyStore))) =
     \<lparr>entries =
        [\<lparr>rID = Some ''i'', rName = ''a.example.com.'', rType = ''A'',
          rContent = ''1.2.3.4'', rTTL = 300\<rparr>,
         \<lparr>rID = Some ''ii'', rName = ''a.example.com.'', rType = ''A'',
          rContent = ''1.2.3.4'', rTTL = 300\<rparr>],
      nextID = 2\<rparr> \<and>
   created (issued (Ensure (providerOf ''zone-1'' (storeClient (\<lambda>n. n)))
     (Some (exampleRecord ''a.example.com.'' [''1.2.3.4''] 300)) \<lparr>ID = ''zone-1''\<rparr>
     (remote_after (Ensure (providerOf ''zone-1'' (storeClient (\<lambda>n. n)))
        (Some (exampleRecord ''a.example.com.'' [''1.2.3.4''] 300)) \<lparr>ID = ''zone-1''\<rparr>
        emptyStore)))) =
     [\<lparr>cName = Some ''a.example.com.'', cType = Some ''A'', cContent = Some ''1.2.3.4'',
       cTTL = Some 300\<rparr>] \<and>
   updated (issued (Ensure (providerOf ''zone-1'' (storeClient (\<lambda>n. n)))
     (Some (exampleRecord ''a.example.com.'' [''1.2.3.4''] 300)) \<lparr>ID = ''zone-1''\<rparr>
     (remote_after (Ensure (providerOf ''zone-1'' (storeClient (\<lambda>n. n)))
        (Some (exampleRecord ''a.example.com.'' [''1.2.3.4''] 300)) \<lparr>ID = ''zone-1''\<rparr>
        emptyStore)))) = []"
proof -
  let ?p = "providerOf ''zone-1'' (storeClient (\<lambda>n. n))"
  let ?r = "exampleRecord ''a.example.com.'' [''1.2.3.4''] 300"
  let ?z = "\<lparr>ID = ''zone-1''\<rparr>"
  let ?e1 = "\<lparr>rID = Some ''i'', rName = ''a.example.com.'', rType = ''A'',
          rContent = ''1.2.3.4'', rTTL = 300\<rparr>"
  let ?e2 = "\<lparr>rID = Some ''ii'', rName = ''a.example.com.'', rType = ''A'',
          rContent = ''1.2.3.4'', rTTL = 300\<rparr>"
  have v: "validateInputDNSData (Some ?r) ?z = None"
    by (simp add: validateInputDNSData_def NewAggregate_def exampleRecord_def)
  have one: "remote_after (Ensure ?p (Some ?r) ?z emptyStore) = \<lparr>entries = [?e1], nextID = 1\<rparr>"
    unfolding Ensure_def emptyStore_def
    by (simp add: dotted_run freshID_def)
  have two: "Ensure ?p (Some ?r) ?z \<lparr>entries = [?e1], nextID = 1\<rparr> =
      \<lparr>returned = Return None, record_after = Some ?r,
       remote_after = \<lparr>entries = [?e1, ?e2], nextID = 2\<rparr>,
       issued =
            [ListCall \<lparr>lType = Some ''A'', lName = Some ''a.example.com'',
                       lContent = Some ''1.2.3.4''\<rparr>,
             CreateCall \<lparr>cName = Some ''a.example.com.'', cType = Some ''A'',
                         cContent = Some ''1.2.3.4'', cTTL = Some 300\<rparr>]\<rparr>"
    unfolding Ensure_def
    by (simp add: dotted_run freshID_def numeral_2_eq_2)
  show ?thesis
    unfolding one two using v by simp
qed

end
